theory Spec2Isabelle
  imports Main "HOL-Library.Sublist" "HOL-Library.AList"
begin

section \<open>Strings of UTF-16 code units\<close>

text \<open>
  A JavaScript string is a sequence of 16-bit code units, and every string operation of
  \<^verbatim>\<open>extension.ts\<close> (\<^verbatim>\<open>split\<close>, \<^verbatim>\<open>match\<close>, \<^verbatim>\<open>trim\<close>, \<^verbatim>\<open>startsWith\<close>, \<^verbatim>\<open>includes\<close>,
  \<^verbatim>\<open>substr\<close>, \<^verbatim>\<open>length\<close>) works on code units. A code unit is modelled by its numeric
  value and a string by the list of its code units; \<open>ustr\<close> turns an ASCII literal into
  such a list.
\<close>

type_synonym jstring = "nat list"

definition ustr :: "string \<Rightarrow> jstring" where
  "ustr = map of_char"

text \<open>The character classes of the regular expressions (none has the \<^verbatim>\<open>u\<close>, \<^verbatim>\<open>i\<close>, \<^verbatim>\<open>s\<close> or \<^verbatim>\<open>m\<close> flag).\<close>

definition is_line_terminator :: "nat \<Rightarrow> bool" where
  "is_line_terminator u \<longleftrightarrow> u = 0x0A \<or> u = 0x0D \<or> u = 0x2028 \<or> u = 0x2029"

definition is_space :: "nat \<Rightarrow> bool" where
  \<comment> \<open>\<^verbatim>\<open>\s\<close>: WhiteSpace and LineTerminator of ECMAScript; also what \<^verbatim>\<open>trim\<close> strips\<close>
  "is_space u \<longleftrightarrow>
     (0x09 \<le> u \<and> u \<le> 0x0D) \<or> u = 0x20 \<or> u = 0xA0 \<or> u = 0x1680 \<or>
     (0x2000 \<le> u \<and> u \<le> 0x200A) \<or> u = 0x2028 \<or> u = 0x2029 \<or> u = 0x202F \<or>
     u = 0x205F \<or> u = 0x3000 \<or> u = 0xFEFF"

definition is_word :: "nat \<Rightarrow> bool" where
  \<comment> \<open>\<^verbatim>\<open>\w\<close>: \<^verbatim>\<open>[A-Za-z0-9_]\<close>\<close>
  "is_word u \<longleftrightarrow>
     (0x30 \<le> u \<and> u \<le> 0x39) \<or> (0x41 \<le> u \<and> u \<le> 0x5A) \<or> u = 0x5F \<or>
     (0x61 \<le> u \<and> u \<le> 0x7A)"

definition is_dot :: "nat \<Rightarrow> bool" where
  \<comment> \<open>\<^verbatim>\<open>.\<close>: anything but a line terminator\<close>
  "is_dot u \<longleftrightarrow> \<not> is_line_terminator u"

definition not_space_at :: "nat \<Rightarrow> bool" where
  \<comment> \<open>\<^verbatim>\<open>[^\s@]\<close>\<close>
  "not_space_at u \<longleftrightarrow> \<not> (is_space u \<or> u = 0x40)"

definition trim :: "jstring \<Rightarrow> jstring" where
  "trim s = rev (dropWhile is_space (rev (dropWhile is_space s)))"

definition startsWith :: "jstring \<Rightarrow> jstring \<Rightarrow> bool" where
  \<comment> \<open>\<^verbatim>\<open>s.startsWith(t)\<close>\<close>
  "startsWith s t = prefix t s"

fun includes_str :: "jstring \<Rightarrow> jstring \<Rightarrow> bool" where
  \<comment> \<open>\<^verbatim>\<open>s.includes(t)\<close>: \<open>t\<close> occurs at some position of \<open>s\<close>\<close>
  "includes_str [] t = (t = [])"
| "includes_str (x # xs) t = (prefix t (x # xs) \<or> includes_str xs t)"

fun split_lines :: "jstring \<Rightarrow> jstring list" where
  \<comment> \<open>\<^verbatim>\<open>text.split(/\r?\n/g)\<close>\<close>
  "split_lines [] = [[]]"
| "split_lines (x # xs) =
     (if x = 0x0A then [] # split_lines xs
      else if x = 0x0D \<and> xs \<noteq> [] \<and> hd xs = 0x0A then [] # split_lines (tl xs)
      else (case split_lines xs of l # ls \<Rightarrow> (x # l) # ls | [] \<Rightarrow> [[x]]))"

section \<open>Regular expressions\<close>

text \<open>
  The three regular-expression literals of the source are kept as syntax trees and run
  by one backtracking matcher. The matcher returns every way the expression can match
  at the start of the input, in the order in which a backtracking engine tries them
  (greedy repetition first takes as much as it can, an alternation tries its left
  branch first), each with the captures made so far and the input that is left. The
  literals repeat character classes only, so \<open>Star\<close> takes a class.
\<close>

datatype rx =
    Lit jstring
  | Cls "nat \<Rightarrow> bool"
  | Star "nat \<Rightarrow> bool"
  | Seq rx rx
  | Alt rx rx
  | Grp nat rx
  | Eol

type_synonym caps = "nat \<rightharpoonup> jstring"

fun star :: "(nat \<Rightarrow> bool) \<Rightarrow> jstring \<Rightarrow> jstring list" where
  "star p [] = [[]]"
| "star p (x # xs) = (if p x then star p xs @ [x # xs] else [x # xs])"

primrec rx_match :: "rx \<Rightarrow> jstring \<Rightarrow> caps \<Rightarrow> (caps \<times> jstring) list" where
  "rx_match (Lit l) s c = (if prefix l s then [(c, drop (length l) s)] else [])"
| "rx_match (Cls p) s c = (case s of [] \<Rightarrow> [] | x # xs \<Rightarrow> if p x then [(c, xs)] else [])"
| "rx_match (Star p) s c = map (Pair c) (star p s)"
| "rx_match (Seq a b) s c = concat (map (\<lambda>(c', s'). rx_match b s' c') (rx_match a s c))"
| "rx_match (Alt a b) s c = rx_match a s c @ rx_match b s c"
| "rx_match (Grp i r) s c =
     map (\<lambda>(c', s'). (c'(i \<mapsto> take (length s - length s') s), s')) (rx_match r s c)"
| "rx_match Eol s c = (if s = [] then [(c, [])] else [])"

fun rx_exec :: "rx \<Rightarrow> jstring \<Rightarrow> caps option" where
  \<comment> \<open>\<^verbatim>\<open>s.match(r)\<close> without the \<^verbatim>\<open>g\<close> flag: the first match at the leftmost position that has one\<close>
  "rx_exec r s =
     (case rx_match r s Map.empty of
        (c, _) # _ \<Rightarrow> Some c
      | [] \<Rightarrow> (case s of [] \<Rightarrow> None | _ # s' \<Rightarrow> rx_exec r s'))"

declare rx_exec.simps [simp del]

definition Plus :: "(nat \<Rightarrow> bool) \<Rightarrow> rx" where
  "Plus p = Seq (Cls p) (Star p)"

definition annotation_rx :: rx where
  \<comment> \<open>the literal of line 55: \<^verbatim>\<open>\/\/\s*\<close>, one \<^verbatim>\<open>@\<close> (written with the quantifier \<^verbatim>\<open>{1}\<close>), then \<^verbatim>\<open>\s*(.+)\<close>\<close>
  "annotation_rx =
     Seq (Lit (ustr ''//'')) (Seq (Star is_space) (Seq (Lit (ustr ''@''))
       (Seq (Star is_space) (Grp 1 (Plus is_dot)))))"

definition variable_rx :: rx where
  \<comment> \<open>\<^verbatim>\<open>/(?:const|let|var)\s+(\w+)\s*=|(\w+)\s*:/\<close>\<close>
  "variable_rx =
     Alt (Seq (Alt (Lit (ustr ''const'')) (Alt (Lit (ustr ''let'')) (Lit (ustr ''var''))))
            (Seq (Plus is_space) (Seq (Grp 1 (Plus is_word))
              (Seq (Star is_space) (Lit (ustr ''=''))))))
         (Seq (Grp 2 (Plus is_word)) (Seq (Star is_space) (Lit (ustr '':''))))"

definition at_rx :: rx where
  \<comment> \<open>\<^verbatim>\<open>/@([^\s@]*)$/\<close>\<close>
  "at_rx = Seq (Lit (ustr ''@'')) (Seq (Grp 1 (Star not_space_at)) Eol)"

definition grp :: "caps \<Rightarrow> nat \<Rightarrow> jstring" where
  \<comment> \<open>\<^verbatim>\<open>match[i]\<close>; a group that took no part in the match (\<^verbatim>\<open>undefined\<close>) reads as the empty
      string, which is falsy as well\<close>
  "grp c i = (case c i of None \<Rightarrow> [] | Some g \<Rightarrow> g)"

section \<open>The scanner\<close>

text \<open>
  The index of one document is a JavaScript \<^verbatim>\<open>Map\<close>: \<^verbatim>\<open>set\<close> overwrites the value of a key
  that is present and leaves it at its place, and appends a new key at the end, which is
  what \<open>AList.update\<close> does; iteration runs through the list from the left.
\<close>

type_synonym annotation_map = "(jstring \<times> jstring) list"

definition variable_name :: "caps \<Rightarrow> jstring" where
  \<comment> \<open>\<^verbatim>\<open>variableMatch[1] || variableMatch[2]\<close>: the first group unless it is undefined or empty\<close>
  "variable_name vm = (if grp vm 1 \<noteq> [] then grp vm 1 else grp vm 2)"

definition blank :: "jstring \<Rightarrow> bool" where
  \<comment> \<open>\<^verbatim>\<open>lines[j].trim() === ''\<close>\<close>
  "blank l \<longleftrightarrow> trim l = []"

fun scan_lines :: "jstring list \<Rightarrow> annotation_map \<Rightarrow> annotation_map" where
  \<comment> \<open>the \<^verbatim>\<open>for\<close> loop of \<^verbatim>\<open>parseDocument\<close> at line \<open>i\<close>, with \<open>rest\<close> the lines from \<open>i + 1\<close> on;
      \<open>dropWhile blank rest\<close> is the inner \<^verbatim>\<open>while\<close> loop\<close>
  "scan_lines [] m = m"
| "scan_lines (line # rest) m =
     scan_lines rest
       (case rx_exec annotation_rx line of
          None \<Rightarrow> m
        | Some annotationMatch \<Rightarrow>
            (case dropWhile blank rest of
               [] \<Rightarrow> m
             | nextLine # _ \<Rightarrow>
                 (case rx_exec variable_rx nextLine of
                    None \<Rightarrow> m
                  | Some variableMatch \<Rightarrow>
                      AList.update (trim (grp annotationMatch 1))
                        (variable_name variableMatch) m)))"

definition scan :: "jstring \<Rightarrow> annotation_map" where
  \<comment> \<open>lines 46 to 78 of \<^verbatim>\<open>parseDocument\<close>: from the text of a document to its index\<close>
  "scan text = scan_lines (split_lines text) []"

section \<open>The document index store and the eligibility filter\<close>

record document =
  uri :: jstring  \<comment> \<open>\<^verbatim>\<open>doc.uri.toString()\<close>, the key of the store\<close>
  scheme :: jstring  \<comment> \<open>\<^verbatim>\<open>doc.uri.scheme\<close>\<close>
  fsPath :: jstring  \<comment> \<open>\<^verbatim>\<open>doc.uri.fsPath\<close>\<close>

type_synonym store = "jstring \<rightharpoonup> annotation_map"

text \<open>
  \<^verbatim>\<open>parseDocument\<close> reads two things from the host when it runs: the workspace folders
  (\<open>None\<close> is \<^verbatim>\<open>undefined\<close>) and the current text of the document, here
  \<open>getText\<close> applied to the document's key. A \<^verbatim>\<open>return\<close> before line 80 leaves the
  store as it was.
\<close>

definition parseDocument ::
  "jstring list option \<Rightarrow> (jstring \<Rightarrow> jstring) \<Rightarrow> document \<Rightarrow> store \<Rightarrow> store" where
  "parseDocument workspaceFolders getText doc documentAnnotations =
     (if scheme doc \<noteq> ustr ''file'' then documentAnnotations
      else case workspaceFolders of
        None \<Rightarrow> documentAnnotations
      | Some folders \<Rightarrow>
          if \<not> list_ex (\<lambda>folder. startsWith (fsPath doc) folder) folders
          then documentAnnotations
          else if includes_str (fsPath doc) (ustr ''node_modules'')
                  \<or> includes_str (fsPath doc) (ustr ''.vscode'')
          then documentAnnotations
          else documentAnnotations(uri doc \<mapsto> scan (getText (uri doc))))"

section \<open>Timers and the debouncer\<close>

text \<open>
  The host's timer table: \<^verbatim>\<open>setTimeout\<close> files the arguments of the callback under a
  fresh handle with the time at which it is due, \<^verbatim>\<open>clearTimeout\<close> removes the entry of a
  handle (and does nothing for a handle that has fired or was cleared). When time moves
  on to \<open>T\<close>, the entries due by then fire in the order of their due times, each at its
  due time.
\<close>

record 'a timers =
  now :: nat
  next_handle :: nat
  pending :: "(nat \<times> nat \<times> 'a) list"  \<comment> \<open>handle, due time, arguments\<close>

definition setTimeout :: "'a \<Rightarrow> nat \<Rightarrow> 'a timers \<Rightarrow> nat \<times> 'a timers" where
  "setTimeout args delay tm =
     (next_handle tm,
      tm\<lparr>next_handle := Suc (next_handle tm),
         pending := pending tm @ [(next_handle tm, now tm + delay, args)]\<rparr>)"

definition clearTimeout :: "nat \<Rightarrow> 'a timers \<Rightarrow> 'a timers" where
  "clearTimeout h tm = tm\<lparr>pending := filter (\<lambda>(h', due, args). h' \<noteq> h) (pending tm)\<rparr>"

definition advance ::
  "(nat \<Rightarrow> 'a \<Rightarrow> 's \<Rightarrow> 's) \<Rightarrow> nat \<Rightarrow> 'a timers \<times> 's \<Rightarrow> 'a timers \<times> 's" where
  "advance callback T = (\<lambda>(tm, s).
     (tm\<lparr>now := T, pending := filter (\<lambda>(h, due, args). \<not> due \<le> T) (pending tm)\<rparr>,
      fold (\<lambda>(h, due, args). callback due args)
        (sort_key (\<lambda>(h, due, args). due) (filter (\<lambda>(h, due, args). due \<le> T) (pending tm))) s))"

text \<open>
  \<^verbatim>\<open>debounce(callback, delay)\<close> returns a closure over one variable \<^verbatim>\<open>timer\<close>, at first
  \<^verbatim>\<open>null\<close>. \<open>debounced delay args\<close> is one call of that closure: it takes the value of
  \<^verbatim>\<open>timer\<close> and the timer table and returns both after the call. The callback itself runs
  when the timer fires, in \<open>advance\<close>.
\<close>

definition debounced :: "nat \<Rightarrow> 'a \<Rightarrow> nat option \<times> 'a timers \<Rightarrow> nat option \<times> 'a timers" where
  "debounced delay args = (\<lambda>(timer, tm).
     (let tm1 = (case timer of Some h \<Rightarrow> clearTimeout h tm | None \<Rightarrow> tm);
          (h, tm2) = setTimeout args delay tm1
      in (Some h, tm2)))"

text \<open>A debounced action on its own: calls of the closure and the passing of time,
  with a log of the executions of the action (time and arguments).\<close>

datatype 'a call = Trigger 'a | Wait nat

record 'a debouncer =
  timer :: "nat option"
  table :: "'a timers"
  executed :: "(nat \<times> 'a) list"

definition debouncer_init :: "nat \<Rightarrow> 'a debouncer" where
  "debouncer_init t = \<lparr>timer = None, table = \<lparr>now = t, next_handle = 0, pending = []\<rparr>, executed = []\<rparr>"

fun debouncer_step :: "nat \<Rightarrow> 'a call \<Rightarrow> 'a debouncer \<Rightarrow> 'a debouncer" where
  "debouncer_step delay (Trigger args) d =
     (let (timer', tm') = debounced delay args (timer d, table d)
      in d\<lparr>timer := timer', table := tm'\<rparr>)"
| "debouncer_step delay (Wait n) d =
     (let (tm', ex') = advance (\<lambda>t args ex. ex @ [(t, args)]) (now (table d) + n) (table d, executed d)
      in d\<lparr>table := tm', executed := ex'\<rparr>)"

definition debouncer_run :: "nat \<Rightarrow> 'a call list \<Rightarrow> 'a debouncer \<Rightarrow> 'a debouncer" where
  "debouncer_run delay calls d = fold (debouncer_step delay) calls d"

section \<open>The indexing controller\<close>

text \<open>
  The state of the extension and of the host it reads: the store, the \<^verbatim>\<open>timer\<close> variable of
  the one wrapper \<^verbatim>\<open>parseDocumentWithDebounce2 = debounce(parseDocument, 300)\<close>, the timer
  table, the visible editors' documents, the current text of every document, and the
  workspace folders.
\<close>

record state =
  documentAnnotations :: store
  timer2 :: "nat option"
  host_timers :: "document timers"
  visibleTextEditors :: "document list"
  texts :: "jstring \<Rightarrow> jstring"
  workspaceFolders :: "jstring list option"

definition parseDocumentWithDebounce :: "document \<Rightarrow> state \<Rightarrow> state" where
  \<comment> \<open>line 85 builds a wrapper with delay 1000 and drops it without calling it; no handler
      calls this function\<close>
  "parseDocumentWithDebounce doc st = st"

definition parseDocumentWithDebounce2 :: "document \<Rightarrow> state \<Rightarrow> state" where
  "parseDocumentWithDebounce2 doc st =
     (let (timer', tm') = debounced 300 doc (timer2 st, host_timers st)
      in st\<lparr>timer2 := timer', host_timers := tm'\<rparr>)"

definition activate ::
  "jstring list option \<Rightarrow> (jstring \<Rightarrow> jstring) \<Rightarrow> document list \<Rightarrow> nat \<Rightarrow> state" where
  \<comment> \<open>the state after \<^verbatim>\<open>activate\<close> has run at time \<open>t\<close>: every visible document parsed at once\<close>
  "activate folders getText editors t =
     \<lparr>documentAnnotations = fold (parseDocument folders getText) editors Map.empty,
      timer2 = None,
      host_timers = \<lparr>now = t, next_handle = 0, pending = []\<rparr>,
      visibleTextEditors = editors,
      texts = getText,
      workspaceFolders = folders\<rparr>"

datatype event =
    VisibleEditorsChanged "document list"  \<comment> \<open>the host shows these editors and calls the handler of line 96\<close>
  | TextDocumentChanged document jstring  \<comment> \<open>the document has this text now; handler of line 109\<close>
  | Elapse nat  \<comment> \<open>time passes\<close>

fun step :: "event \<Rightarrow> state \<Rightarrow> state" where
  "step (VisibleEditorsChanged editors) st =
     (let st1 = st\<lparr>visibleTextEditors := editors\<rparr>
      in if editors \<noteq> [] then fold parseDocumentWithDebounce2 editors st1 else st1)"
| "step (TextDocumentChanged doc text) st =
     (let st1 = st\<lparr>texts := (texts st)(uri doc := text)\<rparr>;
          isVisible = list_ex (\<lambda>editor. uri editor = uri doc) (visibleTextEditors st1)
      in if isVisible then parseDocumentWithDebounce2 doc st1 else st1)"
| "step (Elapse n) st =
     (let (tm', store') =
            advance (\<lambda>t doc. parseDocument (workspaceFolders st) (texts st) doc)
              (now (host_timers st) + n) (host_timers st, documentAnnotations st)
      in st\<lparr>host_timers := tm', documentAnnotations := store'\<rparr>)"

definition run :: "event list \<Rightarrow> state \<Rightarrow> state" where
  "run events st = fold step events st"

section \<open>The completion resolver\<close>

record position =
  line :: nat
  character :: nat

datatype text_edit =
    Replace position position jstring  \<comment> \<open>\<^verbatim>\<open>TextEdit.replace(new Range(start, end), text)\<close>\<close>
  | Insert position jstring  \<comment> \<open>\<^verbatim>\<open>TextEdit.insert(position, text)\<close>\<close>

datatype completion_item_kind = Variable

record completion_item =
  label :: jstring
  kind :: completion_item_kind
  detail :: jstring
  sortText :: jstring
  preselect :: bool
  filterText :: jstring
  textEdit :: text_edit

definition detail_prefix :: jstring where
  \<comment> \<open>the text of the template literal of line 151 before \<^verbatim>\<open>${variableName}\<close>: three CJK code
      units, a colon and a space\<close>
  "detail_prefix = [0x66FF, 0x6362, 0x4E3A, 0x3A, 0x20]"

definition completionItem :: "position \<Rightarrow> jstring \<Rightarrow> jstring \<Rightarrow> jstring \<Rightarrow> completion_item" where
  \<comment> \<open>lines 150 to 166, for one entry of the index\<close>
  "completionItem pos typedAnnotation annotation variableName =
     \<lparr>label = annotation,
      kind = Variable,
      detail = detail_prefix @ variableName,
      sortText = [0],
      preselect = True,
      filterText = ustr ''@'' @ annotation,
      textEdit =
        (if character pos \<ge> length typedAnnotation + 1
         then Replace (pos\<lparr>character := character pos - length typedAnnotation - 1\<rparr>) pos variableName
         else Insert pos variableName)\<rparr>"

definition provideCompletionItems ::
  "store \<Rightarrow> (position \<Rightarrow> jstring) \<Rightarrow> document \<Rightarrow> position \<Rightarrow> completion_item list" where
  \<comment> \<open>\<open>lineAt pos\<close> is the host's \<^verbatim>\<open>document.lineAt(position).text\<close>; the document and the
      position are always given, so the test of line 129 has no branch here\<close>
  "provideCompletionItems store lineAt doc pos =
     (if scheme doc \<noteq> ustr ''file'' then []
      else
        let linePrefix = take (character pos) (lineAt pos)
        in case rx_exec at_rx linePrefix of
             None \<Rightarrow> []
           | Some atMatch \<Rightarrow>
               (let typedAnnotation = grp atMatch 1;
                    annotationMap = (case store (uri doc) of Some m \<Rightarrow> m | None \<Rightarrow> [])
                in map (\<lambda>(annotation, variableName).
                          completionItem pos typedAnnotation annotation variableName)
                     (filter (\<lambda>(annotation, variableName). startsWith annotation typedAnnotation)
                        annotationMap)))"

section \<open>The spec's reading of the excluded-directory check\<close>

text \<open>
  The specification words the third eligibility check as "the file path does not contain
  a segment matching excluded-directory names". \<open>has_excluded_segment\<close> is that wording:
  the path is cut at every \<^verbatim>\<open>/\<close> and \<^verbatim>\<open>\\<close> and a whole segment has to equal one of the two
  names. It is compared below with what line 43 of the source computes.
\<close>

fun path_segments :: "jstring \<Rightarrow> jstring list" where
  "path_segments [] = [[]]"
| "path_segments (x # xs) =
     (if x = 0x2F \<or> x = 0x5C then [] # path_segments xs
      else (case path_segments xs of l # ls \<Rightarrow> (x # l) # ls | [] \<Rightarrow> [[x]]))"

definition has_excluded_segment :: "jstring \<Rightarrow> bool" where
  "has_excluded_segment p \<longleftrightarrow>
     ustr ''node_modules'' \<in> set (path_segments p) \<or> ustr ''.vscode'' \<in> set (path_segments p)"

section \<open>Notions used to state the properties\<close>

text \<open>
  The label that a line carries as an annotation line, if the annotation pattern matches
  it: the value \<^verbatim>\<open>annotationMatch[1].trim()\<close> of line 57.
\<close>

definition annotation_label :: "jstring \<Rightarrow> jstring option" where
  "annotation_label l =
     map_option (\<lambda>annotationMatch. trim (grp annotationMatch 1)) (rx_exec annotation_rx l)"

text \<open>
  The two shapes of a declaring line in the specification's words. \<open>declares X l\<close>: after
  optional indentation the line \<open>l\<close> reads either keyword, white space, the name \<open>X\<close>,
  optional white space, \<^verbatim>\<open>=\<close> and anything, with the keyword one of \<^verbatim>\<open>const\<close>, \<^verbatim>\<open>let\<close>,
  \<^verbatim>\<open>var\<close>; or the name \<open>X\<close>, optional white space, \<^verbatim>\<open>:\<close> and anything. Nothing is asked of
  the characters of \<open>X\<close>: \<^verbatim>\<open>const $x = 1\<close> declares \<^verbatim>\<open>$x\<close>.
\<close>

definition is_keyword :: "jstring \<Rightarrow> bool" where
  "is_keyword kw \<longleftrightarrow> kw = ustr ''const'' \<or> kw = ustr ''let'' \<or> kw = ustr ''var''"

definition declares :: "jstring \<Rightarrow> jstring \<Rightarrow> bool" where
  "declares X l \<longleftrightarrow>
     ((\<exists>ws kw ws1 ws2 rest.
         l = ws @ kw @ ws1 @ X @ ws2 @ 0x3D # rest \<and> list_all is_space ws \<and> is_keyword kw \<and>
         ws1 \<noteq> [] \<and> list_all is_space ws1 \<and> list_all is_space ws2)
      \<or> (\<exists>ws ws2 rest.
         l = ws @ X @ ws2 @ 0x3A # rest \<and> list_all is_space ws \<and> list_all is_space ws2))"

definition is_comment_line :: "jstring \<Rightarrow> bool" where
  \<comment> \<open>a line whose first two characters after its indentation are \<^verbatim>\<open>//\<close>\<close>
  "is_comment_line l \<longleftrightarrow> prefix (ustr ''//'') (dropWhile is_space l)"

text \<open>
  The specification's "file path lies outside all configured workspace roots", read on
  directories: a path lies inside a root when the segments of the root are the first
  segments of the path, and outside all roots when it lies inside none (also when there
  are no workspace folders).
\<close>

definition inside_root :: "jstring \<Rightarrow> jstring \<Rightarrow> bool" where
  "inside_root root p \<longleftrightarrow> prefix (path_segments root) (path_segments p)"

definition lies_outside_roots :: "jstring list option \<Rightarrow> document \<Rightarrow> bool" where
  "lies_outside_roots folders doc \<longleftrightarrow>
     list_all (\<lambda>root. \<not> inside_root root (fsPath doc))
       (case folders of None \<Rightarrow> [] | Some fs \<Rightarrow> fs)"

text \<open>
  For the controller: the documents an event hands to the extension; the test of line 35
  failing for every workspace folder, that is, no folder path being a string prefix of
  the document's path (also when there are no folders); and two document objects that do
  not disagree on the path of one key.
\<close>

fun event_documents :: "event \<Rightarrow> document list" where
  "event_documents (VisibleEditorsChanged editors) = editors"
| "event_documents (TextDocumentChanged doc newText) = [doc]"
| "event_documents (Elapse n) = []"

definition no_root_is_prefix :: "jstring list option \<Rightarrow> document \<Rightarrow> bool" where
  "no_root_is_prefix folders doc \<longleftrightarrow>
     list_all (\<lambda>folder. \<not> startsWith (fsPath doc) folder)
       (case folders of None \<Rightarrow> [] | Some fs \<Rightarrow> fs)"

definition same_file :: "document \<Rightarrow> document \<Rightarrow> bool" where
  "same_file doc e \<longleftrightarrow> (uri e = uri doc \<longrightarrow> fsPath e = fsPath doc)"

section \<open>Invariants\<close>

definition first_match :: "rx \<Rightarrow> jstring \<Rightarrow> caps \<Rightarrow> caps \<times> jstring \<Rightarrow> bool" where
  \<comment> \<open>\<open>x\<close> is the match the engine finds first at the start of \<open>s\<close>\<close>
  "first_match r s c x \<longleftrightarrow> (\<exists>t. rx_match r s c = x # t)"

definition debouncer_inv :: "'a debouncer \<Rightarrow> bool" where
  \<comment> \<open>whatever is pending was set by the last call of the closure\<close>
  "debouncer_inv d \<longleftrightarrow> list_all (\<lambda>e. timer d = Some (fst e)) (pending (table d))"

definition never_indexed :: "jstring list option \<Rightarrow> document \<Rightarrow> state \<Rightarrow> bool" where
  \<comment> \<open>the store has no entry for \<open>doc\<close>, and no pending timer carries a document with the key
      of \<open>doc\<close> and another path\<close>
  "never_indexed folders doc st \<longleftrightarrow>
     workspaceFolders st = folders \<and> documentAnnotations st (uri doc) = None \<and>
     list_all (\<lambda>(h, due, e). same_file doc e) (pending (host_timers st))"

section \<open>Example documents\<close>

definition doc_a :: document where
  "doc_a = \<lparr>uri = ustr ''file:///w/a.ts'', scheme = ustr ''file'', fsPath = ustr ''/w/a.ts''\<rparr>"

definition doc_b :: document where
  "doc_b = \<lparr>uri = ustr ''file:///w/b.ts'', scheme = ustr ''file'', fsPath = ustr ''/w/b.ts''\<rparr>"

definition doc_theme :: document where
  "doc_theme = \<lparr>uri = ustr ''file:///p/my.vscode-theme/a.ts'', scheme = ustr ''file'',
                 fsPath = ustr ''/p/my.vscode-theme/a.ts''\<rparr>"

definition doc_vendored :: document where
  "doc_vendored = \<lparr>uri = ustr ''file:///w/node_modules/x.js'', scheme = ustr ''file'',
                    fsPath = ustr ''/w/node_modules/x.js''\<rparr>"

definition doc_sibling :: document where
  "doc_sibling = \<lparr>uri = ustr ''file:///w2/a.ts'', scheme = ustr ''file'', fsPath = ustr ''/w2/a.ts''\<rparr>"

definition text_uid :: jstring where
  \<comment> \<open>the two lines \<^verbatim>\<open>// @uid\<close> and \<^verbatim>\<open>const userId = 5;\<close>\<close>
  "text_uid = ustr ''// @uid'' @ [0x0A] @ ustr ''const userId = 5;''"

definition text_empty_label :: jstring where
  \<comment> \<open>three lines: \<^verbatim>\<open>// @\<close> with one space behind the \<^verbatim>\<open>@\<close>, \<^verbatim>\<open>const x = 1;\<close>, and \<^verbatim>\<open>@\<close>\<close>
  "text_empty_label = ustr ''// @ '' @ [0x0A] @ ustr ''const x = 1;'' @ [0x0A] @ ustr ''@''"

definition text_profile :: jstring where
  \<comment> \<open>five lines: \<^verbatim>\<open>// @uid\<close>, an empty line, \<^verbatim>\<open>const userId = 5;\<close> indented by two spaces,
      \<^verbatim>\<open>// @n\<close> and \<^verbatim>\<open>name : 1\<close>\<close>
  "text_profile = ustr ''// @uid'' @ [0x0A, 0x0A] @ ustr ''  const userId = 5;'' @ [0x0A]
     @ ustr ''// @n'' @ [0x0A] @ ustr ''name : 1''"

definition text_dollar :: jstring where
  \<comment> \<open>two lines: \<^verbatim>\<open>// @d\<close> and \<^verbatim>\<open>const $x = 1\<close>\<close>
  "text_dollar = ustr ''// @d'' @ [0x0A] @ ustr ''const $x = 1''"

definition text_dollar_property :: jstring where
  \<comment> \<open>two lines: \<^verbatim>\<open>// @d\<close> and \<^verbatim>\<open>$el: 1\<close>\<close>
  "text_dollar_property = ustr ''// @d'' @ [0x0A] @ ustr ''$el: 1''"

definition text_twice :: jstring where
  \<comment> \<open>four lines: \<^verbatim>\<open>// @id\<close>, \<^verbatim>\<open>const a = 1\<close>, \<^verbatim>\<open>// @id\<close> and \<^verbatim>\<open>let b = 2\<close>\<close>
  "text_twice = ustr ''// @id'' @ [0x0A] @ ustr ''const a = 1'' @ [0x0A]
     @ ustr ''// @id'' @ [0x0A] @ ustr ''let b = 2''"

definition text_todo :: jstring where
  \<comment> \<open>two lines: \<^verbatim>\<open>// @a\<close> and the annotation line \<^verbatim>\<open>// @todo: fix\<close>\<close>
  "text_todo = ustr ''// @a'' @ [0x0A] @ ustr ''// @todo: fix''"

definition text_note :: jstring where
  \<comment> \<open>four lines: \<^verbatim>\<open>// @a\<close>, an empty line, the indented annotation line \<^verbatim>\<open>// @b\<close>, and
      \<^verbatim>\<open>const x = 1\<close>\<close>
  "text_note = ustr ''// @a'' @ [0x0A, 0x0A] @ ustr ''  // @b'' @ [0x0A]
     @ ustr ''const x = 1''"

definition all_texts :: "jstring \<Rightarrow> jstring \<Rightarrow> jstring" where
  \<comment> \<open>a host in which every document has the text \<open>t\<close>\<close>
  "all_texts t u = t"

section \<open>Evaluation\<close>

lemmas class_defs = is_space_def is_word_def is_dot_def is_line_terminator_def not_space_at_def

lemmas scan_defs = scan_def ustr_def annotation_rx_def variable_rx_def Plus_def blank_def
  trim_def grp_def variable_name_def class_defs rx_exec.simps

lemmas controller_defs = run_def activate_def parseDocument_def parseDocumentWithDebounce2_def
  debounced_def setTimeout_def clearTimeout_def advance_def startsWith_def

lemmas completion_defs = provideCompletionItems_def completionItem_def at_rx_def
  detail_prefix_def startsWith_def rx_exec.simps

lemmas example_defs = doc_a_def doc_b_def doc_theme_def doc_vendored_def doc_sibling_def text_uid_def
  text_empty_label_def text_profile_def text_twice_def text_todo_def text_note_def all_texts_def

section \<open>The matcher\<close>

subsection \<open>All matches at the start of the input\<close>

lemma star_mem: "r \<in> set (star p s) \<longleftrightarrow> (\<exists>pre. s = pre @ r \<and> list_all p pre)"
  by (induction s) (auto simp: Cons_eq_append_conv)

lemma star_hd: "\<exists>t. star p s = dropWhile p s # t"
  by (induction s) auto

lemma mem_Lit: "(c', s') \<in> set (rx_match (Lit l) s c) \<longleftrightarrow> c' = c \<and> s = l @ s'"
  by (auto simp: prefix_def)

lemma mem_Cls: "(c', s') \<in> set (rx_match (Cls p) s c) \<longleftrightarrow> c' = c \<and> (\<exists>x. s = x # s' \<and> p x)"
  by (cases s) auto

lemma mem_Star: "(c', s') \<in> set (rx_match (Star p) s c) \<longleftrightarrow> c' = c \<and> (\<exists>pre. s = pre @ s' \<and> list_all p pre)"
  by (auto simp: star_mem)

lemma mem_Seq: "(c', s') \<in> set (rx_match (Seq a b) s c) \<longleftrightarrow>
    (\<exists>c1 s1. (c1, s1) \<in> set (rx_match a s c) \<and> (c', s') \<in> set (rx_match b s1 c1))"
  by auto

lemma mem_Alt: "(c', s') \<in> set (rx_match (Alt a b) s c) \<longleftrightarrow>
    (c', s') \<in> set (rx_match a s c) \<or> (c', s') \<in> set (rx_match b s c)"
  by auto

lemma mem_Grp: "(c', s') \<in> set (rx_match (Grp i r) s c) \<longleftrightarrow>
    (\<exists>c1. (c1, s') \<in> set (rx_match r s c) \<and> c' = c1(i \<mapsto> take (length s - length s') s))"
  by auto

lemma mem_Eol: "(c', s') \<in> set (rx_match Eol s c) \<longleftrightarrow> c' = c \<and> s = [] \<and> s' = []"
  by auto

lemma mem_Plus: "(c', s') \<in> set (rx_match (Plus p) s c) \<longleftrightarrow>
    c' = c \<and> (\<exists>x pre. s = x # pre @ s' \<and> p x \<and> list_all p pre)"
  unfolding Plus_def mem_Seq mem_Cls mem_Star by auto

subsection \<open>The match found first\<close>

lemma first_Lit: "first_match (Lit l) (l @ s) c (c, s)"
  by (simp add: first_match_def)

lemma dropWhile_all: "list_all p xs \<Longrightarrow> ys = [] \<or> \<not> p (hd ys) \<Longrightarrow> dropWhile p (xs @ ys) = ys"
  by (induction xs) (auto simp: dropWhile_eq_self_iff)

lemma first_Star: "list_all p xs \<Longrightarrow> ys = [] \<or> \<not> p (hd ys) \<Longrightarrow> first_match (Star p) (xs @ ys) c (c, ys)"
  using star_hd [of p "xs @ ys"] by (auto simp: first_match_def dropWhile_all)

lemma first_Seq: "first_match a s c (c1, s1) \<Longrightarrow> first_match b s1 c1 x \<Longrightarrow> first_match (Seq a b) s c x"
  by (auto simp: first_match_def)

lemma first_Plus: "list_all p xs \<Longrightarrow> xs \<noteq> [] \<Longrightarrow> ys = [] \<or> \<not> p (hd ys) \<Longrightarrow> first_match (Plus p) (xs @ ys) c (c, ys)"
proof -
  assume a: "list_all p xs" "xs \<noteq> []" "ys = [] \<or> \<not> p (hd ys)"
  then obtain x xs' where xs: "xs = x # xs'" by (cases xs) auto
  have "first_match (Cls p) (xs @ ys) c (c, xs' @ ys)" using a xs by (simp add: first_match_def)
  moreover have "first_match (Star p) (xs' @ ys) c (c, ys)" using a xs by (intro first_Star) auto
  ultimately show ?thesis unfolding Plus_def by (rule first_Seq)
qed

lemma first_Alt1: "first_match a s c x \<Longrightarrow> first_match (Alt a b) s c x"
  by (auto simp: first_match_def)

lemma first_Alt2: "rx_match a s c = [] \<Longrightarrow> first_match b s c x \<Longrightarrow> first_match (Alt a b) s c x"
  by (auto simp: first_match_def)

lemma first_Grp: "first_match r s c (c1, s1) \<Longrightarrow> first_match (Grp i r) s c (c1(i \<mapsto> take (length s - length s1) s), s1)"
  by (auto simp: first_match_def)

lemma no_match_iff: "rx_match r s c = [] \<longleftrightarrow> (\<forall>c' s'. (c', s') \<notin> set (rx_match r s c))"
  by (cases "rx_match r s c") auto

subsection \<open>The leftmost match\<close>

lemma rx_exec_first: "first_match r s Map.empty (c, s') \<Longrightarrow> rx_exec r s = Some c"
  by (subst rx_exec.simps) (auto simp: first_match_def)

lemma rx_exec_skip: "rx_match r (x # s) Map.empty = [] \<Longrightarrow> rx_exec r (x # s) = rx_exec r s"
  by (subst rx_exec.simps) simp

lemma rx_exec_Some: "rx_exec r s = Some c \<Longrightarrow> \<exists>pre s1 s'. s = pre @ s1 \<and> first_match r s1 Map.empty (c, s')"
proof (induction r s rule: rx_exec.induct)
  case (1 r s)
  note unfold = rx_exec.simps [of r s]
  show ?case
  proof (cases "rx_match r s Map.empty")
    case Nil
    with "1.prems" unfold obtain x xs where s: "s = x # xs" and "rx_exec r xs = Some c"
      by (cases s) auto
    with "1.IH" Nil obtain pre s1 s' where "xs = pre @ s1" "first_match r s1 Map.empty (c, s')" by blast
    then have "s = (x # pre) @ s1" using s by simp
    then show ?thesis using \<open>first_match r s1 Map.empty (c, s')\<close> by blast
  next
    case (Cons a t)
    with "1.prems" unfold have "fst a = c" by (cases a) auto
    then have "first_match r s Map.empty (c, snd a)" using Cons by (cases a) (auto simp: first_match_def)
    then show ?thesis by (metis append_Nil)
  qed
qed

lemma rx_exec_None: "(\<And>s1. suffix s1 s \<Longrightarrow> rx_match r s1 Map.empty = []) \<Longrightarrow> rx_exec r s = None"
proof (induction s)
  case Nil
  then have "rx_match r [] Map.empty = []" by simp
  then show ?case by (subst rx_exec.simps) simp
next
  case (Cons x xs)
  have "rx_match r (x # xs) Map.empty = []" using Cons.prems by (simp add: suffix_def)
  moreover have "rx_exec r xs = None" using Cons.prems by (intro Cons.IH) (simp add: suffix_Cons)
  ultimately show ?case by (simp add: rx_exec_skip)
qed

lemma word_not_space: "is_word x \<Longrightarrow> \<not> is_space x"
  by (auto simp: is_word_def is_space_def)

lemma space_not_word: "is_space x \<Longrightarrow> \<not> is_word x"
  by (auto simp: is_word_def is_space_def)

lemma hd_spaces_not_word:
  "list_all is_space ws \<Longrightarrow> \<not> is_word x \<Longrightarrow> \<not> is_word (hd (ws @ x # rest))"
  by (cases ws) (simp_all add: space_not_word)

lemma colon_equals_class [simp]:
  "\<not> is_word 0x3A" "\<not> is_space 0x3A" "\<not> is_word 0x3D" "\<not> is_space 0x3D"
  by (simp_all add: is_word_def is_space_def)

lemma keyword_word: "is_keyword kw \<Longrightarrow> list_all is_word kw"
  by (auto simp: is_keyword_def ustr_def is_word_def)

lemma keywords_first:
  "is_keyword kw \<Longrightarrow>
   first_match (Alt (Lit (ustr ''const'')) (Alt (Lit (ustr ''let'')) (Lit (ustr ''var'')))) (kw @ s) c (c, s)"
  by (auto simp: is_keyword_def first_match_def ustr_def)

lemma mem_keywords:
  "(c', s') \<in> set (rx_match (Alt (Lit (ustr ''const'')) (Alt (Lit (ustr ''let'')) (Lit (ustr ''var'')))) s c)
   \<longleftrightarrow> c' = c \<and> (\<exists>kw. is_keyword kw \<and> s = kw @ s')"
  unfolding mem_Alt mem_Lit is_keyword_def by auto

lemma variable_rx_space: "is_space w \<Longrightarrow> rx_match variable_rx (w # s) c = []"
  unfolding no_match_iff variable_rx_def mem_Alt mem_Seq mem_Grp mem_Plus mem_keywords mem_Lit mem_Star
  by (auto simp: is_keyword_def ustr_def is_space_def dest: word_not_space)

lemma variable_rx_skip_space: "list_all is_space ws \<Longrightarrow> rx_exec variable_rx (ws @ s) = rx_exec variable_rx s"
proof (induction ws)
  case Nil
  then show ?case by simp
next
  case (Cons w ws)
  then have "rx_match variable_rx (w # ws @ s) Map.empty = []" by (simp add: variable_rx_space)
  then have "rx_exec variable_rx ((w # ws) @ s) = rx_exec variable_rx (ws @ s)"
    by (simp add: rx_exec_skip)
  then show ?case using Cons by simp
qed

lemma variable_rx_decl:
  assumes kw: "is_keyword kw"
    and ws1: "ws1 \<noteq> []" "list_all is_space ws1"
    and X: "X \<noteq> []" "list_all is_word X"
    and ws2: "list_all is_space ws2"
  shows "first_match variable_rx (kw @ ws1 @ X @ ws2 @ 0x3D # rest) c (c(1 \<mapsto> X), rest)"
proof -
  have hdX: "\<not> is_space (hd (X @ ws2 @ 0x3D # rest))"
    using X by (cases X) (auto dest: word_not_space)
  have nxt: "\<not> is_word (hd (ws2 @ 0x3D # rest))"
    using ws2 by (intro hd_spaces_not_word) simp_all
  have 1: "first_match (Plus is_space) (ws1 @ X @ ws2 @ 0x3D # rest) c (c, X @ ws2 @ 0x3D # rest)"
    using ws1 hdX by (intro first_Plus) auto
  have "first_match (Plus is_word) (X @ ws2 @ 0x3D # rest) c (c, ws2 @ 0x3D # rest)"
    using X nxt by (intro first_Plus) auto
  from first_Grp [OF this, of 1]
  have 2: "first_match (Grp 1 (Plus is_word)) (X @ ws2 @ 0x3D # rest) c (c(1 \<mapsto> X), ws2 @ 0x3D # rest)"
    by simp
  have 3: "first_match (Star is_space) (ws2 @ 0x3D # rest) (c(1 \<mapsto> X)) (c(1 \<mapsto> X), 0x3D # rest)"
    using ws2 by (intro first_Star) auto
  have 4: "first_match (Lit (ustr ''='')) (0x3D # rest) (c(1 \<mapsto> X)) (c(1 \<mapsto> X), rest)"
    by (simp add: first_match_def ustr_def)
  show ?thesis
    unfolding variable_rx_def
    by (intro first_Alt1 first_Seq [OF keywords_first [OF kw]] first_Seq [OF 1] first_Seq [OF 2]
        first_Seq [OF 3] 4)
qed

lemma takeWhile_all: "list_all p xs \<Longrightarrow> ys = [] \<or> \<not> p (hd ys) \<Longrightarrow> takeWhile p (xs @ ys) = xs"
  by (induction xs) (auto simp: takeWhile_eq_Nil_iff)

lemma variable_rx_prop_no_decl:
  assumes X: "list_all is_word X" and ws2: "list_all is_space ws2"
  shows "rx_match (Seq (Alt (Lit (ustr ''const'')) (Alt (Lit (ustr ''let'')) (Lit (ustr ''var''))))
            (Seq (Plus is_space) (Seq (Grp 1 (Plus is_word))
              (Seq (Star is_space) (Lit (ustr ''=''))))))
           (X @ ws2 @ 0x3A # rest) c = []"
proof -
  have False
    if kw: "is_keyword kw" and eq: "X @ ws2 @ 0x3A # rest = kw @ (x # pre) @ y # more"
      and sp: "is_space x" "list_all is_space pre" and y: "is_word y"
    for kw x pre y more
  proof -
    have nw: "\<not> is_word (hd (ws2 @ 0x3A # rest))"
      using ws2 by (intro hd_spaces_not_word) simp_all
    have "takeWhile is_word (X @ ws2 @ 0x3A # rest) = X"
      using X nw by (intro takeWhile_all) auto
    moreover have "takeWhile is_word (kw @ (x # pre) @ y # more) = kw"
      using keyword_word [OF kw] sp by (intro takeWhile_all) (auto dest: word_not_space)
    ultimately have "X = kw" using eq by simp
    with eq have eq2: "ws2 @ 0x3A # rest = (x # pre) @ y # more" by simp
    have "dropWhile is_space (ws2 @ 0x3A # rest) = 0x3A # rest"
      using ws2 by (intro dropWhile_all) auto
    moreover have "dropWhile is_space ((x # pre) @ y # more) = y # more"
      using sp y by (intro dropWhile_all) (auto dest: word_not_space)
    ultimately have "y = 0x3A" using eq2 by simp
    with y show False by simp
  qed
  note F = this
  show ?thesis
    unfolding no_match_iff
  proof (intro allI notI)
    fix c' s'
    assume "(c', s') \<in> set (rx_match (Seq (Alt (Lit (ustr ''const'')) (Alt (Lit (ustr ''let'')) (Lit (ustr ''var''))))
            (Seq (Plus is_space) (Seq (Grp 1 (Plus is_word))
              (Seq (Star is_space) (Lit (ustr ''=''))))))
           (X @ ws2 @ 0x3A # rest) c)"
    then obtain kw x pre y more where "is_keyword kw"
      "X @ ws2 @ 0x3A # rest = kw @ (x # pre) @ y # more" "is_space x" "list_all is_space pre" "is_word y"
      unfolding mem_Seq mem_Grp mem_Plus mem_keywords mem_Lit mem_Star
      by (elim exE conjE) simp
    then show False by (rule F)
  qed
qed

lemma variable_rx_prop:
  assumes X: "X \<noteq> []" "list_all is_word X" and ws2: "list_all is_space ws2"
  shows "first_match variable_rx (X @ ws2 @ 0x3A # rest) c (c(2 \<mapsto> X), rest)"
proof -
  have nxt: "\<not> is_word (hd (ws2 @ 0x3A # rest))"
    using ws2 by (intro hd_spaces_not_word) simp_all
  have "first_match (Plus is_word) (X @ ws2 @ 0x3A # rest) c (c, ws2 @ 0x3A # rest)"
    using X nxt by (intro first_Plus) auto
  from first_Grp [OF this, of 2]
  have 2: "first_match (Grp 2 (Plus is_word)) (X @ ws2 @ 0x3A # rest) c (c(2 \<mapsto> X), ws2 @ 0x3A # rest)"
    by simp
  have 3: "first_match (Star is_space) (ws2 @ 0x3A # rest) (c(2 \<mapsto> X)) (c(2 \<mapsto> X), 0x3A # rest)"
    using ws2 by (intro first_Star) auto
  have 4: "first_match (Lit (ustr '':'')) (0x3A # rest) (c(2 \<mapsto> X)) (c(2 \<mapsto> X), rest)"
    by (simp add: first_match_def ustr_def)
  show ?thesis
    unfolding variable_rx_def
    by (intro first_Alt2 variable_rx_prop_no_decl X ws2 first_Seq [OF 2] first_Seq [OF 3] 4)
qed

section \<open>The scanner: labels and declarations\<close>

text \<open>
  A match of the annotation pattern always fills its group, and a match of the variable
  pattern always yields a non-empty name from the group of the branch that matched: the
  empty string that \<open>grp\<close> returns for an unset group is never stored.
\<close>

lemma annotation_group_defined:
  assumes "rx_exec annotation_rx l = Some annotationMatch"
  shows "\<exists>g. annotationMatch 1 = Some g \<and> g \<noteq> []"
proof -
  from rx_exec_Some [OF assms] obtain pre s1 s' where
    "first_match annotation_rx s1 Map.empty (annotationMatch, s')" by blast
  then have "(annotationMatch, s') \<in> set (rx_match annotation_rx s1 Map.empty)"
    by (auto simp: first_match_def)
  then show ?thesis
    unfolding annotation_rx_def mem_Seq mem_Grp mem_Plus mem_Lit mem_Star
    by auto
qed

lemma variable_name_defined:
  assumes "rx_exec variable_rx l = Some variableMatch"
  shows "variable_name variableMatch \<noteq> [] \<and>
         (variableMatch 1 = Some (variable_name variableMatch) \<or>
          variableMatch 1 = None \<and> variableMatch 2 = Some (variable_name variableMatch))"
proof -
  from rx_exec_Some [OF assms] obtain pre s1 s' where
    "first_match variable_rx s1 Map.empty (variableMatch, s')" by blast
  then have "(variableMatch, s') \<in> set (rx_match variable_rx s1 Map.empty)"
    by (auto simp: first_match_def)
  then show ?thesis
    unfolding variable_rx_def mem_Alt mem_Seq mem_Grp mem_Plus mem_keywords mem_Lit mem_Star
    by (auto simp: variable_name_def grp_def)
qed

lemma dropWhile_all_iff: "(\<forall>x \<in> set (dropWhile p l). p x) \<longleftrightarrow> (\<forall>x \<in> set l. p x)"
proof
  assume all: "\<forall>x \<in> set (dropWhile p l). p x"
  have "dropWhile p l = []"
  proof (rule ccontr)
    assume ne: "dropWhile p l \<noteq> []"
    then have "\<not> p (hd (dropWhile p l))" by (rule hd_dropWhile)
    moreover have "hd (dropWhile p l) \<in> set (dropWhile p l)" using ne by simp
    ultimately show False using all by blast
  qed
  then show "\<forall>x \<in> set l. p x" by (simp add: dropWhile_eq_Nil_conv)
next
  assume "\<forall>x \<in> set l. p x"
  then show "\<forall>x \<in> set (dropWhile p l). p x" by (blast dest: set_dropWhileD)
qed

lemma blank_iff: "blank l \<longleftrightarrow> list_all is_space l"
  by (simp add: blank_def trim_def dropWhile_all_iff list_all_iff)

lemma declares_match:
  assumes "declares X l" and X: "X \<noteq> []" "list_all is_word X"
  shows "\<exists>vm. rx_exec variable_rx l = Some vm \<and> variable_name vm = X"
proof -
  from assms(1) consider
    (kw_form) ws kw ws1 ws2 rest where "l = ws @ kw @ ws1 @ X @ ws2 @ 0x3D # rest" "list_all is_space ws"
      "is_keyword kw" "ws1 \<noteq> []" "list_all is_space ws1" "list_all is_space ws2"
  | (colon_form) ws ws2 rest where "l = ws @ X @ ws2 @ 0x3A # rest" "list_all is_space ws" "list_all is_space ws2"
    unfolding declares_def by blast
  then show ?thesis
  proof cases
    case kw_form
    have "rx_exec variable_rx (kw @ ws1 @ X @ ws2 @ 0x3D # rest) = Some (Map.empty(1 \<mapsto> X))"
      using variable_rx_decl [OF kw_form(3,4,5) X kw_form(6), of rest Map.empty] by (rule rx_exec_first)
    then have "rx_exec variable_rx l = Some (Map.empty(1 \<mapsto> X))"
      using kw_form by (simp add: variable_rx_skip_space)
    then show ?thesis using X by (simp add: variable_name_def grp_def)
  next
    case colon_form
    have "rx_exec variable_rx (X @ ws2 @ 0x3A # rest) = Some (Map.empty(2 \<mapsto> X))"
      using variable_rx_prop [OF X colon_form(3), of rest Map.empty] by (rule rx_exec_first)
    then have "rx_exec variable_rx l = Some (Map.empty(2 \<mapsto> X))"
      using colon_form by (simp add: variable_rx_skip_space)
    then show ?thesis using X by (simp add: variable_name_def grp_def)
  qed
qed

lemma declares_not_blank:
  "declares X l \<Longrightarrow> X \<noteq> [] \<Longrightarrow> list_all is_word X \<Longrightarrow> \<not> blank l"
  unfolding declares_def blank_iff
  by (cases X) (auto dest: word_not_space)

lemma scan_lines_other:
  "list_all (\<lambda>l. annotation_label l \<noteq> Some L) ls \<Longrightarrow> map_of (scan_lines ls m) L = map_of m L"
  by (induction ls arbitrary: m)
     (auto simp: annotation_label_def update_conv' split: option.splits list.splits)

lemma scan_lines_later:
  "(\<And>m'. map_of (scan_lines ls m') L = Some v) \<Longrightarrow> map_of (scan_lines (before @ ls) m) L = Some v"
  by (induction before arbitrary: m) simp_all

lemma scan_lines_absent:
  "list_all (\<lambda>l. annotation_label l \<noteq> Some L) before \<Longrightarrow>
   (\<And>m'. map_of m' L = None \<Longrightarrow> map_of (scan_lines ls m') L = None) \<Longrightarrow>
   map_of m L = None \<Longrightarrow> map_of (scan_lines (before @ ls) m) L = None"
proof (induction before arbitrary: m)
  case Nil
  then show ?case by simp
next
  case (Cons b before)
  show ?case
    using Cons.prems
    by (auto simp: annotation_label_def update_conv' split: option.splits list.splits
        intro!: Cons.IH)
qed

lemma scan_lines_entry:
  assumes "annotation_label aline = Some L"
    and "dropWhile blank rest = nextLine # after"
    and "rx_exec variable_rx nextLine = Some vm"
    and "list_all (\<lambda>l. annotation_label l \<noteq> Some L) rest"
  shows "map_of (scan_lines (aline # rest) m) L = Some (variable_name vm)"
  using assms
  by (auto simp: annotation_label_def scan_lines_other update_conv')

lemma dropWhile_blanks:
  "list_all blank blanks \<Longrightarrow> \<not> blank nextLine \<Longrightarrow> dropWhile blank (blanks @ nextLine # after) = nextLine # after"
  by (induction blanks) auto

lemma declares_keywordI:
  "list_all is_space ws \<Longrightarrow> is_keyword kw \<Longrightarrow> ws1 \<noteq> [] \<Longrightarrow>
   list_all is_space ws1 \<Longrightarrow> list_all is_space ws2 \<Longrightarrow>
   declares X (ws @ kw @ ws1 @ X @ ws2 @ 0x3D # rest)"
  unfolding declares_def by blast

lemma declares_colonI:
  "list_all is_space ws \<Longrightarrow> list_all is_space ws2 \<Longrightarrow> declares X (ws @ X @ ws2 @ 0x3A # rest)"
  unfolding declares_def by blast

text \<open>
  C1, as stated, fails for a declared name that the pattern \<^verbatim>\<open>\w+\<close> of line 68 cannot
  take whole. In the text with the lines \<^verbatim>\<open>// @d\<close> and \<^verbatim>\<open>const $x = 1\<close> the second line
  has the form \<^verbatim>\<open>const X = ...\<close> with \<^verbatim>\<open>$x\<close> for \<open>X\<close> and the label does not reappear, yet
  neither pattern matches the line and \<^verbatim>\<open>d\<close> is absent from the index. In the text with
  the lines \<^verbatim>\<open>// @d\<close> and \<^verbatim>\<open>$el: 1\<close> the second line has the form \<^verbatim>\<open>X: <value>\<close> with
  \<^verbatim>\<open>$el\<close> for \<open>X\<close>, yet the index maps \<^verbatim>\<open>d\<close> to \<^verbatim>\<open>el\<close>.
\<close>

theorem declared_dollar_name_counterexample:
  "split_lines text_dollar = [ustr ''// @d'', ustr ''const $x = 1'']
   \<and> annotation_label (ustr ''// @d'') = Some (ustr ''d'')
   \<and> declares (ustr ''$x'') (ustr ''const $x = 1'')
   \<and> annotation_label (ustr ''const $x = 1'') = None
   \<and> map_of (scan text_dollar) (ustr ''d'') = None
   \<and> split_lines text_dollar_property = [ustr ''// @d'', ustr ''$el: 1'']
   \<and> declares (ustr ''$el'') (ustr ''$el: 1'')
   \<and> annotation_label (ustr ''$el: 1'') = None
   \<and> map_of (scan text_dollar_property) (ustr ''d'') = Some (ustr ''el'')
   \<and> ustr ''el'' \<noteq> ustr ''$el''"
proof -
  have d1: "declares (ustr ''$x'') (ustr ''const $x = 1'')"
    using declares_keywordI [of "[]" "ustr ''const''" "ustr '' ''" "ustr '' ''" "ustr ''$x''"
        "ustr '' 1''"]
    by (simp add: ustr_def is_keyword_def is_space_def)
  have d2: "declares (ustr ''$el'') (ustr ''$el: 1'')"
    using declares_colonI [of "[]" "[]" "ustr ''$el''" "ustr '' 1''"]
    by (simp add: ustr_def)
  show ?thesis
    using d1 d2
    by (simp add: text_dollar_def text_dollar_property_def annotation_label_def scan_defs)
qed

text \<open>
  C1, amended: let the lines of a text be \<open>before\<close>, an annotation line with label \<open>L\<close>,
  blank lines only, a line \<open>nextLine\<close> that declares \<open>X\<close> (by a keyword and \<^verbatim>\<open>=\<close>, or by
  \<^verbatim>\<open>:\<close>), and \<open>after\<close>; let \<open>X\<close> be a non-empty run of the characters \<^verbatim>\<open>A-Z\<close>, \<^verbatim>\<open>a-z\<close>,
  \<^verbatim>\<open>0-9\<close> and \<^verbatim>\<open>_\<close>; and let no line behind the annotation line be an annotation line with
  label \<open>L\<close>. Then the index of the text maps \<open>L\<close> to \<open>X\<close>.
\<close>

theorem scan_maps_label_to_declared_identifier:
  assumes "split_lines text = before @ aline # blanks @ nextLine # after"
    and "annotation_label aline = Some L"
    and "list_all blank blanks"
    and "declares X nextLine"
    and "X \<noteq> []"
    and "list_all is_word X"
    and "list_all (\<lambda>l. annotation_label l \<noteq> Some L) (blanks @ nextLine # after)"
  shows "map_of (scan text) L = Some X"
proof -
  obtain vm where vm: "rx_exec variable_rx nextLine = Some vm" "variable_name vm = X"
    using declares_match [OF assms(4,5,6)] by blast
  have dw: "dropWhile blank (blanks @ nextLine # after) = nextLine # after"
    using assms(3) declares_not_blank [OF assms(4,5,6)] by (rule dropWhile_blanks)
  have "map_of (scan_lines (aline # blanks @ nextLine # after) m') L = Some X" for m'
    using scan_lines_entry [OF assms(2) dw vm(1) assms(7)] vm(2) by simp
  then have "map_of (scan_lines (before @ aline # blanks @ nextLine # after) []) L = Some X"
    by (rule scan_lines_later)
  then show ?thesis by (simp add: scan_def assms(1))
qed

theorem scan_maps_label_to_declared_identifier_witness:
  "split_lines text_profile
     = [] @ ustr ''// @uid'' # [[]] @ ustr ''  const userId = 5;'' # [ustr ''// @n'', ustr ''name : 1'']
   \<and> annotation_label (ustr ''// @uid'') = Some (ustr ''uid'')
   \<and> list_all blank [[]]
   \<and> declares (ustr ''userId'') (ustr ''  const userId = 5;'')
   \<and> ustr ''userId'' \<noteq> []
   \<and> list_all is_word (ustr ''userId'')
   \<and> list_all (\<lambda>l. annotation_label l \<noteq> Some (ustr ''uid''))
        ([[]] @ ustr ''  const userId = 5;'' # [ustr ''// @n'', ustr ''name : 1''])
   \<and> map_of (scan text_profile) (ustr ''uid'') = Some (ustr ''userId'')
   \<and> annotation_label (ustr ''// @n'') = Some (ustr ''n'')
   \<and> declares (ustr ''name'') (ustr ''name : 1'')
   \<and> list_all is_word (ustr ''name'')
   \<and> map_of (scan text_profile) (ustr ''n'') = Some (ustr ''name'')"
proof -
  have d1: "declares (ustr ''userId'') (ustr ''  const userId = 5;'')"
    using declares_keywordI [of "ustr ''  ''" "ustr ''const''" "ustr '' ''" "ustr '' ''"
        "ustr ''userId''" "ustr '' 5;''"]
    by (simp add: ustr_def is_keyword_def is_space_def)
  have d2: "declares (ustr ''name'') (ustr ''name : 1'')"
    using declares_colonI [of "[]" "ustr '' ''" "ustr ''name''" "ustr '' 1''"]
    by (simp add: ustr_def is_space_def)
  have w: "list_all is_word (ustr ''userId'')" "list_all is_word (ustr ''name'')"
    "ustr ''userId'' \<noteq> []" "ustr ''name'' \<noteq> []"
    by (simp_all add: ustr_def is_word_def)
  have l1: "annotation_label (ustr ''// @uid'') = Some (ustr ''uid'')"
    and l2: "annotation_label (ustr ''// @n'') = Some (ustr ''n'')"
    and l3: "annotation_label [] = None"
    and l4: "annotation_label (ustr ''  const userId = 5;'') = None"
    and l5: "annotation_label (ustr ''name : 1'') = None"
    by (simp_all add: annotation_label_def scan_defs)
  have s: "split_lines text_profile
     = [ustr ''// @uid'', [], ustr ''  const userId = 5;'', ustr ''// @n'', ustr ''name : 1'']"
    by (simp add: text_profile_def ustr_def)
  have b: "blank []" by (simp add: blank_def trim_def)
  have "map_of (scan text_profile) (ustr ''uid'') = Some (ustr ''userId'')"
    using scan_maps_label_to_declared_identifier [of text_profile "[]" "ustr ''// @uid''" "[[]]"
        "ustr ''  const userId = 5;''" "[ustr ''// @n'', ustr ''name : 1'']" "ustr ''uid''"
        "ustr ''userId''"] s l1 l2 l3 l4 l5 d1 b w
    by (simp add: ustr_def)
  moreover have "map_of (scan text_profile) (ustr ''n'') = Some (ustr ''name'')"
    using scan_maps_label_to_declared_identifier [of text_profile
        "[ustr ''// @uid'', [], ustr ''  const userId = 5;'']" "ustr ''// @n''" "[]"
        "ustr ''name : 1''" "[]" "ustr ''n''" "ustr ''name''"] s l2 l5 d2 w
    by (simp add: ustr_def)
  ultimately show ?thesis
    using s l1 l2 l3 l4 l5 d1 d2 b w by (simp add: ustr_def)
qed

text \<open>
  C3: let an annotation line with label \<open>L\<close> be followed, after blank lines only, by a line
  that one of the identifier patterns matches, let a second annotation line with label
  \<open>L\<close> further down be followed in the same way by a matching line, and let no annotation
  line behind the second carry \<open>L\<close>. Then the index maps \<open>L\<close> to the identifier taken from
  the line behind the second occurrence.
\<close>

theorem scan_last_occurrence_wins:
  assumes "split_lines text = before @ line1 # mid @ line2 # rest"
    and "annotation_label line1 = Some L"
    and "dropWhile blank (mid @ line2 # rest) = next1 # after1"
    and "rx_exec variable_rx next1 = Some vm1"
    and "annotation_label line2 = Some L"
    and "dropWhile blank rest = next2 # after2"
    and "rx_exec variable_rx next2 = Some vm2"
    and "list_all (\<lambda>l. annotation_label l \<noteq> Some L) rest"
  shows "map_of (scan text) L = Some (variable_name vm2)"
proof -
  have "map_of (scan_lines (line2 # rest) m') L = Some (variable_name vm2)" for m'
    using assms(5-8) by (rule scan_lines_entry)
  then have "map_of (scan_lines ((before @ line1 # mid) @ line2 # rest) []) L = Some (variable_name vm2)"
    by (rule scan_lines_later)
  then show ?thesis by (simp add: scan_def assms(1))
qed

lemma variable_rx_needs_colon_or_equals:
  assumes "(c', s') \<in> set (rx_match variable_rx s c)"
  shows "0x3D \<in> set s \<or> 0x3A \<in> set s"
  using assms
  unfolding variable_rx_def mem_Alt mem_Seq mem_Grp mem_Plus mem_keywords mem_Lit mem_Star
  by (auto simp: ustr_def)

lemma no_colon_no_equals:
  assumes "0x3A \<notin> set l" and "0x3D \<notin> set l"
  shows "rx_exec variable_rx l = None"
proof (rule rx_exec_None)
  fix s1
  assume "suffix s1 l"
  then have "set s1 \<subseteq> set l" by (rule set_mono_suffix)
  with assms have "0x3A \<notin> set s1" "0x3D \<notin> set s1" by auto
  then show "rx_match variable_rx s1 Map.empty = []"
    unfolding no_match_iff using variable_rx_needs_colon_or_equals by blast
qed

text \<open>
  C7, amended: let an annotation line with label \<open>L\<close> be followed, after blank lines only,
  by a first non-blank line that is a \<^verbatim>\<open>//\<close> comment line and that neither identifier pattern
  matches anywhere (by \<open>no_colon_no_equals\<close> every line without \<^verbatim>\<open>:\<close> and \<^verbatim>\<open>=\<close> is such a
  line), and let no other line of the text be an annotation line with label \<open>L\<close>. Then
  \<open>L\<close> is absent from the index.
\<close>

theorem label_dropped_when_comment_matches_no_pattern:
  assumes "split_lines text = before @ aline # blanks @ nextLine # after"
    and "annotation_label aline = Some L"
    and "list_all blank blanks"
    and "\<not> blank nextLine"
    and "is_comment_line nextLine"
    and "rx_exec variable_rx nextLine = None"
    and "list_all (\<lambda>l. annotation_label l \<noteq> Some L) (before @ blanks @ nextLine # after)"
  shows "map_of (scan text) L = None"
proof -
  have dw: "dropWhile blank (blanks @ nextLine # after) = nextLine # after"
    using assms(3,4) by (rule dropWhile_blanks)
  have rest: "list_all (\<lambda>l. annotation_label l \<noteq> Some L) (blanks @ nextLine # after)"
    and before: "list_all (\<lambda>l. annotation_label l \<noteq> Some L) before"
    using assms(7) by simp_all
  have "map_of (scan_lines (aline # blanks @ nextLine # after) m') L = None" if "map_of m' L = None" for m'
    using that assms(6) dw rest by (simp add: scan_lines_other split: option.splits)
  with before have "map_of (scan_lines (before @ aline # blanks @ nextLine # after) []) L = None"
    by (rule scan_lines_absent) simp_all
  then show ?thesis by (simp add: scan_def assms(1))
qed

text \<open>
  C7, as stated, fails: the patterns are searched for anywhere in the line, so a comment
  line can match one. In the text with the two lines \<^verbatim>\<open>// @a\<close> and \<^verbatim>\<open>// @todo: fix\<close> the
  second line is a comment line, an annotation line even, and the pattern for object
  properties finds \<^verbatim>\<open>todo:\<close> in it: the index maps \<^verbatim>\<open>a\<close> to \<^verbatim>\<open>todo\<close>.
\<close>

theorem comment_after_label_counterexample:
  "split_lines text_todo = [ustr ''// @a'', ustr ''// @todo: fix'']
   \<and> annotation_label (ustr ''// @a'') = Some (ustr ''a'')
   \<and> is_comment_line (ustr ''// @todo: fix'')
   \<and> annotation_label (ustr ''// @todo: fix'') = Some (ustr ''todo: fix'')
   \<and> map_of (scan text_todo) (ustr ''a'') = Some (ustr ''todo'')"
  by (simp add: text_todo_def annotation_label_def is_comment_line_def scan_defs)

theorem label_dropped_when_comment_matches_no_pattern_witness:
  "split_lines text_note = [] @ ustr ''// @a'' # [[]] @ ustr ''  // @b'' # [ustr ''const x = 1'']
   \<and> annotation_label (ustr ''// @a'') = Some (ustr ''a'')
   \<and> list_all blank [[]]
   \<and> \<not> blank (ustr ''  // @b'')
   \<and> is_comment_line (ustr ''  // @b'')
   \<and> rx_exec variable_rx (ustr ''  // @b'') = None
   \<and> list_all (\<lambda>l. annotation_label l \<noteq> Some (ustr ''a'')) ([] @ [[]] @ ustr ''  // @b'' # [ustr ''const x = 1''])
   \<and> map_of (scan text_note) (ustr ''a'') = None
   \<and> scan text_note = [(ustr ''b'', ustr ''x'')]"
  using label_dropped_when_comment_matches_no_pattern [of text_note "[]" "ustr ''// @a''" "[[]]" "ustr ''  // @b''" "[ustr ''const x = 1'']" "ustr ''a''"]
  by (simp add: text_note_def annotation_label_def is_comment_line_def scan_defs)

theorem scan_last_occurrence_wins_witness:
  "split_lines text_twice = [] @ ustr ''// @id'' # [ustr ''const a = 1''] @ ustr ''// @id'' # [ustr ''let b = 2'']
   \<and> annotation_label (ustr ''// @id'') = Some (ustr ''id'')
   \<and> dropWhile blank ([ustr ''const a = 1''] @ ustr ''// @id'' # [ustr ''let b = 2''])
       = ustr ''const a = 1'' # [ustr ''// @id'', ustr ''let b = 2'']
   \<and> rx_exec variable_rx (ustr ''const a = 1'') = Some (Map.empty(1 \<mapsto> ustr ''a''))
   \<and> dropWhile blank [ustr ''let b = 2''] = ustr ''let b = 2'' # []
   \<and> rx_exec variable_rx (ustr ''let b = 2'') = Some (Map.empty(1 \<mapsto> ustr ''b''))
   \<and> list_all (\<lambda>l. annotation_label l \<noteq> Some (ustr ''id'')) [ustr ''let b = 2'']
   \<and> map_of (scan text_twice) (ustr ''id'') = Some (ustr ''b'')"
  using scan_last_occurrence_wins [of text_twice "[]" "ustr ''// @id''" "[ustr ''const a = 1'']"
      "ustr ''// @id''" "[ustr ''let b = 2'']" "ustr ''id''" "ustr ''const a = 1''"
      "[ustr ''// @id'', ustr ''let b = 2'']" "Map.empty(1 \<mapsto> ustr ''a'')" "ustr ''let b = 2''" "[]"
      "Map.empty(1 \<mapsto> ustr ''b'')"]
  by (simp add: text_twice_def annotation_label_def scan_defs)

section \<open>The completion resolver: candidates\<close>

lemma at_rx_match:
  assumes "rx_exec at_rx s = Some atMatch"
  shows "\<exists>pre. s = pre @ 0x40 # grp atMatch 1 \<and> list_all not_space_at (grp atMatch 1)"
proof -
  from rx_exec_Some [OF assms] obtain pre s1 s' where s: "s = pre @ s1"
    and "first_match at_rx s1 Map.empty (atMatch, s')" by blast
  then have "(atMatch, s') \<in> set (rx_match at_rx s1 Map.empty)"
    by (auto simp: first_match_def)
  then obtain typed where "s1 = 0x40 # typed" "list_all not_space_at typed" "atMatch = Map.empty(1 \<mapsto> typed)"
    unfolding at_rx_def mem_Seq mem_Grp mem_Lit mem_Star mem_Eol
    by (auto simp: ustr_def)
  then show ?thesis using s by (auto simp: grp_def)
qed

text \<open>
  C2: for a file document (or any document without an index in the store; only file
  documents are ever indexed), let the line up to the cursor match the pattern of line 140
  with the captured text \<open>typed\<close>, and let the cursor column be at least the length of
  \<open>typed\<close> plus one. Then the resolver returns, in the order of the index, one candidate
  for each entry whose label starts with \<open>typed\<close> and no other candidate; the candidate
  shows the label, its detail ends in the identifier, and its edit replaces the span from
  column \<open>character - length typed - 1\<close> to the cursor by the identifier. When the cursor
  lies on the line, the text of that span is the \<^verbatim>\<open>@\<close> followed by \<open>typed\<close>. The witness is
  the instance of the claim: index \<^verbatim>\<open>foo\<close> to \<^verbatim>\<open>userId\<close> and \<^verbatim>\<open>bar\<close> to \<^verbatim>\<open>count\<close>, typed \<^verbatim>\<open>f\<close>.
\<close>

theorem completion_candidates_by_prefix:
  assumes "scheme doc = ustr ''file'' \<or> store (uri doc) = None"
    and "rx_exec at_rx (take (character pos) (lineAt pos)) = Some atMatch"
    and "typed = grp atMatch 1"
    and "character pos \<ge> length typed + 1"
    and "index = (case store (uri doc) of Some m \<Rightarrow> m | None \<Rightarrow> [])"
  shows "provideCompletionItems store lineAt doc pos =
           map (\<lambda>(annotation, variableName).
                  \<lparr>label = annotation, kind = Variable, detail = detail_prefix @ variableName,
                   sortText = [0], preselect = True, filterText = ustr ''@'' @ annotation,
                   textEdit = Replace (pos\<lparr>character := character pos - length typed - 1\<rparr>) pos
                                variableName\<rparr>)
             (filter (\<lambda>(annotation, variableName). prefix typed annotation) index)
         \<and> (character pos \<le> length (lineAt pos) \<longrightarrow>
              take (length typed + 1) (drop (character pos - length typed - 1) (lineAt pos))
                = 0x40 # typed)"
proof
  show "provideCompletionItems store lineAt doc pos =
           map (\<lambda>(annotation, variableName).
                  \<lparr>label = annotation, kind = Variable, detail = detail_prefix @ variableName,
                   sortText = [0], preselect = True, filterText = ustr ''@'' @ annotation,
                   textEdit = Replace (pos\<lparr>character := character pos - length typed - 1\<rparr>) pos
                                variableName\<rparr>)
             (filter (\<lambda>(annotation, variableName). prefix typed annotation) index)"
    using assms by (auto simp: provideCompletionItems_def completionItem_def startsWith_def Let_def)
next
  show "character pos \<le> length (lineAt pos) \<longrightarrow>
          take (length typed + 1) (drop (character pos - length typed - 1) (lineAt pos)) = 0x40 # typed"
  proof
    assume le: "character pos \<le> length (lineAt pos)"
    from at_rx_match [OF assms(2)] assms(3) obtain pre
      where pre: "take (character pos) (lineAt pos) = pre @ 0x40 # typed" by blast
    then have "length (take (character pos) (lineAt pos)) = length pre + length typed + 1" by simp
    with le have n: "character pos - length typed - 1 = length pre" by simp
    have "lineAt pos = (pre @ 0x40 # typed) @ drop (character pos) (lineAt pos)"
      using pre append_take_drop_id [of "character pos" "lineAt pos"] by simp
    then have "drop (length pre) (lineAt pos) = 0x40 # typed @ drop (character pos) (lineAt pos)"
      by (metis append.assoc append_Cons append_eq_conv_conj)
    then show "take (length typed + 1) (drop (character pos - length typed - 1) (lineAt pos)) = 0x40 # typed"
      using n by simp
  qed
qed

theorem completion_candidates_by_prefix_witness:
  "scheme doc_a = ustr ''file''
   \<and> rx_exec at_rx (take 2 (ustr ''@f'')) = Some (Map.empty(1 \<mapsto> ustr ''f''))
   \<and> provideCompletionItems (Map.empty(uri doc_a \<mapsto> [(ustr ''foo'', ustr ''userId''), (ustr ''bar'', ustr ''count'')]))
        (\<lambda>pos. ustr ''@f'') doc_a \<lparr>line = 0, character = 2\<rparr>
      = [\<lparr>label = ustr ''foo'', kind = Variable, detail = detail_prefix @ ustr ''userId'',
          sortText = [0], preselect = True, filterText = ustr ''@foo'',
          textEdit = Replace \<lparr>line = 0, character = 0\<rparr> \<lparr>line = 0, character = 2\<rparr> (ustr ''userId'')\<rparr>]
   \<and> take 2 (drop 0 (ustr ''@f'')) = 0x40 # ustr ''f''"
  using completion_candidates_by_prefix [where doc = doc_a
      and pos = "\<lparr>line = 0, character = 2\<rparr>" and lineAt = "\<lambda>pos. ustr ''@f''"
      and atMatch = "Map.empty(1 \<mapsto> ustr ''f'')" and typed = "ustr ''f''"
      and index = "[(ustr ''foo'', ustr ''userId''), (ustr ''bar'', ustr ''count'')]"
      and store = "Map.empty(uri doc_a \<mapsto> [(ustr ''foo'', ustr ''userId''), (ustr ''bar'', ustr ''count'')])"]
  by (simp add: doc_a_def ustr_def at_rx_def grp_def not_space_at_def is_space_def rx_exec.simps)

section \<open>The debouncer\<close>

lemma debouncer_inv_init: "debouncer_inv (debouncer_init t)"
  by (simp add: debouncer_inv_def debouncer_init_def)

lemma debouncer_inv_step: "debouncer_inv d \<Longrightarrow> debouncer_inv (debouncer_step delay c d)"
  by (cases c; cases "timer d")
     (auto simp: debouncer_inv_def debounced_def setTimeout_def clearTimeout_def advance_def
        list_all_iff)

lemma debouncer_inv_run: "debouncer_inv d \<Longrightarrow> debouncer_inv (debouncer_run delay cs d)"
  unfolding debouncer_run_def
  by (induction cs arbitrary: d) (simp_all add: debouncer_inv_step)

lemma trigger_pending:
  assumes "debouncer_inv d"
  shows "pending (table (debouncer_step delay (Trigger a) d)) =
         [(next_handle (table d), now (table d) + delay, a)]"
proof -
  have "filter (\<lambda>(h', due, args). h' \<noteq> h) (pending (table d)) = []" if "timer d = Some h" for h
    using assms that by (auto simp: debouncer_inv_def filter_empty_conv list_all_iff)
  moreover have "pending (table d) = []" if "timer d = None"
    using assms that by (cases "pending (table d)") (auto simp: debouncer_inv_def)
  ultimately show ?thesis
    by (cases "timer d") (simp_all add: debounced_def setTimeout_def clearTimeout_def)
qed

text \<open>
  C4: the action of \<open>debounce(action, 300)\<close>, triggered at \<open>t\<close>, \<open>t + 10\<close> and \<open>t + 20\<close> and
  then left alone for \<open>n\<close> time units, has run exactly once, at \<open>t + 20 + 300\<close> and with
  the arguments of the third trigger, as soon as \<open>n\<close> reaches 300, and not at all before.
  And after any calls whatever, with any delay, a further trigger leaves exactly one
  execution pending, due one delay after that trigger and carrying its arguments: the
  execution that was pending is cancelled, the timer restarted, and nothing is executed by
  the trigger itself.
\<close>

theorem debounce_last_trigger_wins:
  "executed (debouncer_run 300 [Trigger a1, Wait 10, Trigger a2, Wait 10, Trigger a3, Wait n]
      (debouncer_init t))
     = (if 300 \<le> n then [(t + 20 + 300, a3)] else [])
   \<and> pending (table (debouncer_step delay (Trigger a) (debouncer_run delay calls (debouncer_init t0))))
     = [(next_handle (table (debouncer_run delay calls (debouncer_init t0))),
         now (table (debouncer_run delay calls (debouncer_init t0))) + delay, a)]
   \<and> executed (debouncer_step delay (Trigger a) (debouncer_run delay calls (debouncer_init t0)))
     = executed (debouncer_run delay calls (debouncer_init t0))"
proof (intro conjI)
  show "executed (debouncer_run 300 [Trigger a1, Wait 10, Trigger a2, Wait 10, Trigger a3, Wait n]
      (debouncer_init t)) = (if 300 \<le> n then [(t + 20 + 300, a3)] else [])"
    by (simp add: debouncer_run_def debouncer_init_def debounced_def setTimeout_def
        clearTimeout_def advance_def)
  show "pending (table (debouncer_step delay (Trigger a) (debouncer_run delay calls (debouncer_init t0))))
     = [(next_handle (table (debouncer_run delay calls (debouncer_init t0))),
         now (table (debouncer_run delay calls (debouncer_init t0))) + delay, a)]"
    by (rule trigger_pending) (rule debouncer_inv_run, rule debouncer_inv_init)
  show "executed (debouncer_step delay (Trigger a) (debouncer_run delay calls (debouncer_init t0)))
     = executed (debouncer_run delay calls (debouncer_init t0))"
    by (simp add: debounced_def setTimeout_def split: prod.splits)
qed

section \<open>The wiring of the change handlers\<close>

text \<open>
  C5, as stated (a window of 1000 for text changes), fails: a change of the visible
  document \<open>doc_a\<close> at time 0 sets the timer of the shared wrapper to time 300, and when
  300 time units have passed the scan has run and the store holds the new index.
\<close>

theorem text_change_window_counterexample:
  "list_ex (\<lambda>editor. uri editor = uri doc_a)
     (visibleTextEditors (activate (Some [ustr ''/w'']) (all_texts []) [doc_a] 0))
   \<and> documentAnnotations (activate (Some [ustr ''/w'']) (all_texts []) [doc_a] 0) (uri doc_a) = Some []
   \<and> pending (host_timers (run [TextDocumentChanged doc_a text_uid]
        (activate (Some [ustr ''/w'']) (all_texts []) [doc_a] 0))) = [(0, 300, doc_a)]
   \<and> now (host_timers (run [TextDocumentChanged doc_a text_uid, Elapse 300]
        (activate (Some [ustr ''/w'']) (all_texts []) [doc_a] 0))) = 300
   \<and> documentAnnotations (run [TextDocumentChanged doc_a text_uid, Elapse 300]
        (activate (Some [ustr ''/w'']) (all_texts []) [doc_a] 0)) (uri doc_a)
       = Some [(ustr ''uid'', ustr ''userId'')]"
  by (simp add: scan_defs controller_defs example_defs)

text \<open>
  C5, amended: for every "document text changed" event on a currently visible document
  the controller requests a debounced scan through the wrapper
  \<^verbatim>\<open>parseDocumentWithDebounce2\<close>, whose window is 300 time units: the timer that this
  wrapper had pending is cleared and a timer for the changed document is set, due 300
  after the event. When nothing else is pending, the store is as before the event until
  300 time units have passed, and from then on it is what \<^verbatim>\<open>parseDocument\<close> makes of the
  changed text.
\<close>

theorem text_change_window_300:
  assumes "list_ex (\<lambda>editor. uri editor = uri doc) (visibleTextEditors st)"
  shows "pending (host_timers (step (TextDocumentChanged doc newText) st)) =
           filter (\<lambda>(h, due, args). Some h \<noteq> timer2 st) (pending (host_timers st))
             @ [(next_handle (host_timers st), now (host_timers st) + 300, doc)]
         \<and> (pending (host_timers st) = [] \<longrightarrow>
              documentAnnotations (step (Elapse n) (step (TextDocumentChanged doc newText) st)) =
                (if n < 300 then documentAnnotations st
                 else parseDocument (workspaceFolders st) ((texts st)(uri doc := newText)) doc
                        (documentAnnotations st)))"
  using assms
  by (cases "timer2 st")
     (simp_all add: parseDocumentWithDebounce2_def debounced_def setTimeout_def clearTimeout_def
        advance_def)

theorem text_change_window_300_witness:
  "list_ex (\<lambda>editor. uri editor = uri doc_a)
     (visibleTextEditors (activate (Some [ustr ''/w'']) (all_texts []) [doc_a] 0))
   \<and> pending (host_timers (activate (Some [ustr ''/w'']) (all_texts []) [doc_a] 0)) = []
   \<and> pending (host_timers (step (TextDocumentChanged doc_a text_uid)
        (activate (Some [ustr ''/w'']) (all_texts []) [doc_a] 0))) = [(0, 300, doc_a)]
   \<and> documentAnnotations (step (Elapse 299) (step (TextDocumentChanged doc_a text_uid)
        (activate (Some [ustr ''/w'']) (all_texts []) [doc_a] 0))) (uri doc_a) = Some []
   \<and> documentAnnotations (step (Elapse 300) (step (TextDocumentChanged doc_a text_uid)
        (activate (Some [ustr ''/w'']) (all_texts []) [doc_a] 0))) (uri doc_a)
       = Some [(ustr ''uid'', ustr ''userId'')]"
  using text_change_window_300 [of doc_a "activate (Some [ustr ''/w'']) (all_texts []) [doc_a] 0"
          text_uid 299]
        text_change_window_300 [of doc_a "activate (Some [ustr ''/w'']) (all_texts []) [doc_a] 0"
          text_uid 300]
  by (simp add: activate_def parseDocument_def startsWith_def example_defs scan_defs)

text \<open>
  C6 at the input "the editors of \<open>doc_a\<close> and \<open>doc_b\<close> become visible together": the
  handler of line 96 passes both documents to the one wrapper, the call for \<open>doc_b\<close>
  clears the timer of \<open>doc_a\<close>, and when the window has passed only \<open>doc_b\<close> has been
  scanned. No timer is left, so \<open>doc_a\<close> is not scanned later either.
\<close>

theorem shared_wrapper_cancels_other_document:
  "uri doc_a \<noteq> uri doc_b
   \<and> documentAnnotations (run [VisibleEditorsChanged [doc_a, doc_b], Elapse 300, Elapse 1000]
        (activate (Some [ustr ''/w'']) (all_texts text_uid) [] 0)) (uri doc_a) = None
   \<and> documentAnnotations (run [VisibleEditorsChanged [doc_a, doc_b], Elapse 300, Elapse 1000]
        (activate (Some [ustr ''/w'']) (all_texts text_uid) [] 0)) (uri doc_b)
       = Some [(ustr ''uid'', ustr ''userId'')]
   \<and> pending (host_timers (run [VisibleEditorsChanged [doc_a, doc_b], Elapse 300, Elapse 1000]
        (activate (Some [ustr ''/w'']) (all_texts text_uid) [] 0))) = []
   \<and> documentAnnotations (run [VisibleEditorsChanged [doc_a], Elapse 300, Elapse 1000]
        (activate (Some [ustr ''/w'']) (all_texts text_uid) [] 0)) (uri doc_a)
       = Some [(ustr ''uid'', ustr ''userId'')]"
  by (simp add: scan_defs controller_defs example_defs)

section \<open>The excluded-directory check\<close>

lemma includes_str_sublist: "includes_str s t \<longleftrightarrow> sublist t s"
  by (induction s) (simp_all add: sublist_Cons_right)

lemma path_segments_not_Nil: "path_segments p \<noteq> []"
  by (induction p) (auto split: list.splits)

lemma path_segments_hd_prefix: "path_segments p = l # ls \<Longrightarrow> prefix l p"
  by (induction p arbitrary: l ls) (auto split: if_splits list.splits)

lemma path_segment_sublist: "s \<in> set (path_segments p) \<Longrightarrow> sublist s p"
proof (induction p arbitrary: s)
  case Nil
  then show ?case by simp
next
  case (Cons x xs)
  show ?case
  proof (cases "x = 0x2F \<or> x = 0x5C")
    case True
    with Cons.prems have "s = [] \<or> s \<in> set (path_segments xs)" by auto
    then show ?thesis using Cons.IH by (auto simp: sublist_Cons_right)
  next
    case False
    obtain l ls where seg: "path_segments xs = l # ls"
      using path_segments_not_Nil [of xs] by (cases "path_segments xs") auto
    with False Cons.prems have "s = x # l \<or> s \<in> set ls" by auto
    then show ?thesis
    proof
      assume "s = x # l"
      moreover have "prefix l xs" using seg by (rule path_segments_hd_prefix)
      ultimately show ?thesis by (simp add: sublist_Cons_right)
    next
      assume "s \<in> set ls"
      then have "sublist s xs" using Cons.IH seg by simp
      then show ?thesis by (simp add: sublist_Cons_right)
    qed
  qed
qed

text \<open>
  What line 43 computes: a file document under a workspace folder is left out of the
  store when \<^verbatim>\<open>node_modules\<close> or \<^verbatim>\<open>.vscode\<close> occurs anywhere in its path as a substring, and
  is scanned otherwise. Every path with a whole segment of one of the two names is
  among those left out.
\<close>

lemma parseDocument_excluded_check:
  assumes "scheme doc = ustr ''file''"
    and "list_ex (\<lambda>folder. startsWith (fsPath doc) folder) folders"
  shows "parseDocument (Some folders) getText doc store =
           (if sublist (ustr ''node_modules'') (fsPath doc) \<or> sublist (ustr ''.vscode'') (fsPath doc)
            then store else store(uri doc \<mapsto> scan (getText (uri doc))))
         \<and> (has_excluded_segment (fsPath doc) \<longrightarrow>
              parseDocument (Some folders) getText doc store = store)"
  using assms
  by (auto simp: parseDocument_def includes_str_sublist has_excluded_segment_def
      dest: path_segment_sublist)

text \<open>
  C9 at the claim's own example, the file document with the path
  \<^verbatim>\<open>/p/my.vscode-theme/a.ts\<close> under the workspace folder \<^verbatim>\<open>/p\<close>: its segments are \<^verbatim>\<open>p\<close>,
  \<^verbatim>\<open>my.vscode-theme\<close> and \<^verbatim>\<open>a.ts\<close>, none of them an excluded name, so by the claim (and by
  the comment of line 42, which speaks of the two directories) the document passes the
  check and is scanned. The code tests \<^verbatim>\<open>fsPath.includes('.vscode')\<close>, which holds, and
  \<^verbatim>\<open>parseDocument\<close> returns without a scan. For comparison, a document inside a
  \<^verbatim>\<open>node_modules\<close> directory is skipped and \<^verbatim>\<open>/w/a.ts\<close> is scanned, as the claim says.
\<close>

theorem excluded_check_skips_longer_segment:
  "scheme doc_theme = ustr ''file''
   \<and> startsWith (fsPath doc_theme) (ustr ''/p'')
   \<and> path_segments (fsPath doc_theme) = [[], ustr ''p'', ustr ''my.vscode-theme'', ustr ''a.ts'']
   \<and> \<not> has_excluded_segment (fsPath doc_theme)
   \<and> includes_str (fsPath doc_theme) (ustr ''.vscode'')
   \<and> parseDocument (Some [ustr ''/p'']) (all_texts text_uid) doc_theme Map.empty (uri doc_theme) = None
   \<and> has_excluded_segment (fsPath doc_vendored)
   \<and> parseDocument (Some [ustr ''/w'']) (all_texts text_uid) doc_vendored Map.empty (uri doc_vendored)
       = None
   \<and> \<not> has_excluded_segment (fsPath doc_a)
   \<and> parseDocument (Some [ustr ''/w'']) (all_texts text_uid) doc_a Map.empty (uri doc_a)
       = Some [(ustr ''uid'', ustr ''userId'')]"
  by (simp add: has_excluded_segment_def scan_defs controller_defs example_defs)

section \<open>An annotation with an empty label\<close>

text \<open>
  C10: in the document with the three lines \<^verbatim>\<open>// @\<close> followed by one space,
  \<^verbatim>\<open>const x = 1;\<close> and \<^verbatim>\<open>@\<close>, the group \<^verbatim>\<open>(.+)\<close> of the annotation pattern takes the
  space, which trims to the empty string: the scan yields the index with the one entry
  from the empty label to \<^verbatim>\<open>x\<close>. With that index in the store, a completion request behind
  the bare \<^verbatim>\<open>@\<close> of the third line (empty typed prefix) returns one candidate, with the
  empty label, whose edit replaces columns 0 to 1, the \<^verbatim>\<open>@\<close>, by \<^verbatim>\<open>x\<close>.
\<close>

theorem empty_label_is_indexed_and_offered:
  "scan text_empty_label = [([], ustr ''x'')]
   \<and> documentAnnotations
        (activate (Some [ustr ''/w'']) (all_texts text_empty_label) [doc_a] 0) (uri doc_a)
       = Some [([], ustr ''x'')]
   \<and> provideCompletionItems
        (documentAnnotations (activate (Some [ustr ''/w'']) (all_texts text_empty_label) [doc_a] 0))
        (\<lambda>pos. ustr ''@'') doc_a \<lparr>line = 2, character = 1\<rparr>
       = [\<lparr>label = [], kind = Variable, detail = detail_prefix @ ustr ''x'', sortText = [0],
           preselect = True, filterText = ustr ''@'',
           textEdit = Replace \<lparr>line = 2, character = 0\<rparr> \<lparr>line = 2, character = 1\<rparr> (ustr ''x'')\<rparr>]"
  by (simp add: scan_defs controller_defs completion_defs example_defs)

section \<open>Documents outside the workspace\<close>

lemma parseDocument_outside:
  "no_root_is_prefix folders doc \<Longrightarrow> parseDocument folders getText doc store = store"
  by (auto simp: parseDocument_def no_root_is_prefix_def list_all_iff list_ex_iff split: option.splits)

lemma parseDocument_same_file:
  assumes "no_root_is_prefix folders doc" and "same_file doc e"
  shows "parseDocument folders getText e store (uri doc) = store (uri doc)"
proof (cases "uri e = uri doc")
  case True
  with assms have "no_root_is_prefix folders e" by (simp add: same_file_def no_root_is_prefix_def)
  then show ?thesis by (simp add: parseDocument_outside)
next
  case False
  then show ?thesis by (simp add: parseDocument_def split: option.splits)
qed

lemma fold_parseDocument_same_file:
  "no_root_is_prefix folders doc \<Longrightarrow> list_all (same_file doc) es \<Longrightarrow>
   fold (parseDocument folders getText) es store (uri doc) = store (uri doc)"
  by (induction es arbitrary: store) (simp_all add: parseDocument_same_file)

lemma fold_timers_same_file:
  "no_root_is_prefix folders doc \<Longrightarrow> list_all (\<lambda>(h, due, e). same_file doc e) xs \<Longrightarrow>
   fold (\<lambda>(h, due, e). parseDocument folders getText e) xs store (uri doc) = store (uri doc)"
  by (induction xs arbitrary: store) (auto simp: parseDocument_same_file)

lemma never_indexed_activate:
  "no_root_is_prefix folders doc \<Longrightarrow> list_all (same_file doc) editors \<Longrightarrow>
   never_indexed folders doc (activate folders getText editors t)"
  by (simp add: never_indexed_def activate_def fold_parseDocument_same_file)

lemma never_indexed_debounce2:
  "never_indexed folders doc st \<Longrightarrow> same_file doc e \<Longrightarrow>
   never_indexed folders doc (parseDocumentWithDebounce2 e st)"
  by (cases "timer2 st")
     (auto simp: never_indexed_def parseDocumentWithDebounce2_def debounced_def setTimeout_def
        clearTimeout_def list_all_iff)

lemma never_indexed_fold_debounce2:
  "never_indexed folders doc st \<Longrightarrow> list_all (same_file doc) es \<Longrightarrow>
   never_indexed folders doc (fold parseDocumentWithDebounce2 es st)"
  by (induction es arbitrary: st) (simp_all add: never_indexed_debounce2)

lemma never_indexed_step:
  assumes out: "no_root_is_prefix folders doc"
    and inv: "never_indexed folders doc st"
    and docs: "list_all (same_file doc) (event_documents ev)"
  shows "never_indexed folders doc (step ev st)"
proof (cases ev)
  case (VisibleEditorsChanged editors)
  have "never_indexed folders doc (st\<lparr>visibleTextEditors := editors\<rparr>)"
    using inv by (simp add: never_indexed_def)
  then show ?thesis
    using docs VisibleEditorsChanged by (auto simp: never_indexed_fold_debounce2 Let_def)
next
  case (TextDocumentChanged e newText)
  have "never_indexed folders doc (st\<lparr>texts := (texts st)(uri e := newText)\<rparr>)"
    using inv by (simp add: never_indexed_def)
  then show ?thesis
    using docs TextDocumentChanged by (simp add: never_indexed_debounce2 Let_def)
next
  case (Elapse n)
  let ?due = "sort_key (\<lambda>(h, due, args). due)
      (filter (\<lambda>(h, due, args). due \<le> now (host_timers st) + n) (pending (host_timers st)))"
  have "list_all (\<lambda>(h, due, e). same_file doc e) ?due"
    using inv by (auto simp: never_indexed_def list_all_iff)
  then have "fold (\<lambda>(h, due, e). parseDocument folders (texts st) e) ?due
      (documentAnnotations st) (uri doc) = None"
    using out inv by (simp add: fold_timers_same_file never_indexed_def)
  moreover have "(\<lambda>(h, due, args). parseDocument (workspaceFolders st) (texts st) args)
      = (\<lambda>(h, due, e). parseDocument folders (texts st) e)"
    using inv by (simp add: never_indexed_def)
  ultimately show ?thesis
    using inv Elapse by (auto simp: never_indexed_def advance_def list_all_iff)
qed

lemma never_indexed_fold:
  "no_root_is_prefix folders doc \<Longrightarrow> never_indexed folders doc st \<Longrightarrow>
   list_all (same_file doc) (concat (map event_documents events)) \<Longrightarrow>
   never_indexed folders doc (fold step events st)"
  by (induction events arbitrary: st) (simp_all add: never_indexed_step)

lemma no_index_no_candidates:
  "store (uri doc) = None \<Longrightarrow> provideCompletionItems store lineAt doc pos = []"
  by (simp add: provideCompletionItems_def Let_def split: option.splits)

text \<open>
  Where no workspace folder is even a string prefix of the path of \<open>doc\<close>, the code keeps
  \<open>doc\<close> out of the store through activation and all events, and serves no candidate
  for it.
\<close>

lemma no_prefix_root_never_indexed:
  assumes "no_root_is_prefix folders doc"
    and "list_all (same_file doc) (editors @ concat (map event_documents events))"
  shows "parseDocument folders getText doc store = store
       \<and> documentAnnotations (run events (activate folders getText editors t)) (uri doc) = None
       \<and> provideCompletionItems (documentAnnotations (run events (activate folders getText editors t)))
            lineAt doc pos = []"
proof -
  have "never_indexed folders doc (run events (activate folders getText editors t))"
    unfolding run_def using assms
    by (intro never_indexed_fold never_indexed_activate) simp_all
  then have "documentAnnotations (run events (activate folders getText editors t)) (uri doc) = None"
    by (simp add: never_indexed_def)
  then show ?thesis
    using assms(1) by (simp add: parseDocument_outside no_index_no_candidates)
qed

text \<open>
  C8 at the file document with the path \<^verbatim>\<open>/w2/a.ts\<close>, the one workspace folder being
  \<^verbatim>\<open>/w\<close>: the document lies in the directory \<^verbatim>\<open>/w2\<close>, outside the root, so by the claim
  (and by the comment of line 28, which says the check is whether the document is in the
  workspace) it is not scanned, has no store entry and gets no candidates. The code
  tests \<^verbatim>\<open>fsPath.startsWith('/w')\<close>, which holds: activation scans the document, the store
  holds its index, and a completion request behind \<^verbatim>\<open>@u\<close> is served the candidate
  \<^verbatim>\<open>uid\<close>. For comparison, the document \<^verbatim>\<open>/p/my.vscode-theme/a.ts\<close>, of whose path \<^verbatim>\<open>/w\<close> is
  no prefix, is not scanned.
\<close>

theorem sibling_directory_is_indexed:
  "path_segments (ustr ''/w'') = [[], ustr ''w'']
   \<and> path_segments (fsPath doc_sibling) = [[], ustr ''w2'', ustr ''a.ts'']
   \<and> lies_outside_roots (Some [ustr ''/w'']) doc_sibling
   \<and> startsWith (fsPath doc_sibling) (ustr ''/w'')
   \<and> parseDocument (Some [ustr ''/w'']) (all_texts text_uid) doc_sibling Map.empty (uri doc_sibling)
       = Some [(ustr ''uid'', ustr ''userId'')]
   \<and> documentAnnotations
        (activate (Some [ustr ''/w'']) (all_texts text_uid) [doc_sibling, doc_theme] 0) (uri doc_sibling)
       = Some [(ustr ''uid'', ustr ''userId'')]
   \<and> provideCompletionItems
        (documentAnnotations
           (activate (Some [ustr ''/w'']) (all_texts text_uid) [doc_sibling, doc_theme] 0))
        (\<lambda>pos. ustr ''@u'') doc_sibling \<lparr>line = 0, character = 2\<rparr>
       = [\<lparr>label = ustr ''uid'', kind = Variable, detail = detail_prefix @ ustr ''userId'',
           sortText = [0], preselect = True, filterText = ustr ''@uid'',
           textEdit = Replace \<lparr>line = 0, character = 0\<rparr> \<lparr>line = 0, character = 2\<rparr>
                        (ustr ''userId'')\<rparr>]
   \<and> lies_outside_roots (Some [ustr ''/w'']) doc_theme
   \<and> documentAnnotations
        (activate (Some [ustr ''/w'']) (all_texts text_uid) [doc_sibling, doc_theme] 0) (uri doc_theme)
       = None"
  by (simp add: lies_outside_roots_def inside_root_def scan_defs controller_defs completion_defs
      example_defs)

end
